theory Spec2Isabelle
  imports Complex_Main
begin

chapter \<open>The model\<close>

section \<open>Python values and exceptions\<close>

text \<open>
  The exception classes the sources raise, catch or test for, with room for classes a
  caller defines (\<open>UserClass name base\<close>). \<open>mro\<close> is the method resolution order of a
  class, so that \<open>isinstance\<close> and the \<open>except\<close> clauses can be decided as Python does.
  \<open>GreenletExit\<close> belongs to the greenlet library; no statement below depends on its base.
\<close>

datatype exc_class =
    BaseException | Exception | KeyboardInterrupt | SystemExit | GreenletExit
  | AssertionError | AttributeError | TypeError | ValueError | UnboundLocalError
  | ZeroDivisionError | RuntimeError | NotImplementedError | ImportError | IndexError
  | Cancelled
  | UserClass string exc_class

primrec mro :: "exc_class \<Rightarrow> exc_class list" where
  "mro BaseException = [BaseException]"
| "mro Exception = [Exception, BaseException]"
| "mro KeyboardInterrupt = [KeyboardInterrupt, BaseException]"
| "mro SystemExit = [SystemExit, BaseException]"
| "mro GreenletExit = [GreenletExit, BaseException]"
| "mro AssertionError = [AssertionError, Exception, BaseException]"
| "mro AttributeError = [AttributeError, Exception, BaseException]"
| "mro TypeError = [TypeError, Exception, BaseException]"
| "mro ValueError = [ValueError, Exception, BaseException]"
| "mro UnboundLocalError = [UnboundLocalError, Exception, BaseException]"
| "mro ZeroDivisionError = [ZeroDivisionError, Exception, BaseException]"
| "mro RuntimeError = [RuntimeError, Exception, BaseException]"
| "mro NotImplementedError = [NotImplementedError, RuntimeError, Exception, BaseException]"
| "mro ImportError = [ImportError, Exception, BaseException]"
| "mro IndexError = [IndexError, Exception, BaseException]"
| "mro Cancelled = [Cancelled, RuntimeError, Exception, BaseException]"
| "mro (UserClass n b) = UserClass n b # mro b"

definition issubclass :: "exc_class \<Rightarrow> exc_class \<Rightarrow> bool" where
  "issubclass c d = (d \<in> set (mro c))"

datatype exn = Exn (cls: exc_class) (msg: string)

definition isinstance :: "exn \<Rightarrow> exc_class \<Rightarrow> bool" where
  "isinstance e c = issubclass (cls e) c"

datatype pyval =
    PyNone | PyBool bool | PyInt int | PyStr string | PyTuple "pyval list"
  | PyExc exn | PyClass exc_class | PyTraceback | PyEvent nat | PyFunc nat
  | Sentinel

text \<open>
  \<open>Sentinel\<close> is the object \<open>coros.NOT_USED\<close>, a module attribute that any caller can
  name and pass like every other value.
\<close>

text \<open>
  A call either returns or raises; the state it leaves is returned beside the outcome, since
  what Python has mutated before a \<open>raise\<close> stays mutated. A call that hands control to
  the hub (\<open>hub.switch()\<close>) is \<open>Switched\<close>: its value comes later, from whoever
  switches back.
\<close>

type_synonym 'a outcome = "exn + 'a"

datatype 'a blocking = Switched | Done "'a outcome"

type_synonym fiber = nat

section \<open>The hub: timers and listeners\<close>

text \<open>
  Modelled from the spec: the hub class (eventlet.hubs.hub.BaseHub), its timers and
  \<open>greenlib.switch\<close> are not among the sources. A timer is (deadline, callback, bound
  fiber, cancelled flag) and is pending while neither cancelled nor fired; a local timer
  (\<open>schedule_call\<close>) is bound to the fiber that schedules it, a global one
  (\<open>schedule_call_global\<close>) to none. The registry holds at most one listener for each
  (direction, fd); installing a second is an error. A timer handle is the position of the
  timer in the hub's list, where it stays.
\<close>

datatype callback =
    GreenlibSwitch fiber pyval "exn option"
  | Throw fiber pyval

record timer =
  seconds :: real
  cb :: callback
  bound :: "fiber option"
  cancelled :: bool
  fired :: bool

datatype evtype = READ | WRITE

record listener =
  l_evtype :: evtype
  l_fileno :: int
  l_cb :: fiber

record hub =
  greenlet :: fiber
  timers :: "timer list"
  listeners :: "listener list"

definition add_timer :: "real \<Rightarrow> callback \<Rightarrow> fiber option \<Rightarrow> hub \<Rightarrow> nat \<times> hub" where
  "add_timer s c b h =
     (length (timers h),
      h\<lparr>timers := timers h @ [\<lparr>seconds = s, cb = c, bound = b, cancelled = False, fired = False\<rparr>]\<rparr>)"

definition schedule_call :: "fiber \<Rightarrow> real \<Rightarrow> callback \<Rightarrow> hub \<Rightarrow> nat \<times> hub" where
  "schedule_call current s c h = add_timer s c (Some current) h"

definition schedule_call_global :: "real \<Rightarrow> callback \<Rightarrow> hub \<Rightarrow> nat \<times> hub" where
  "schedule_call_global s c h = add_timer s c None h"

definition pending :: "hub \<Rightarrow> nat \<Rightarrow> bool" where
  "pending h t = (t < length (timers h) \<and> \<not> cancelled (timers h ! t) \<and> \<not> fired (timers h ! t))"

definition timer_cancel :: "nat \<Rightarrow> hub \<Rightarrow> hub" where
  "timer_cancel t h =
     (if pending h t then h\<lparr>timers := (timers h)[t := (timers h ! t)\<lparr>cancelled := True\<rparr>]\<rparr> else h)"

definition cancel_timers :: "fiber \<Rightarrow> hub \<Rightarrow> hub" where
  "cancel_timers g h =
     h\<lparr>timers := map (\<lambda>t. if bound t = Some g \<and> \<not> cancelled t \<and> \<not> fired t
                               then t\<lparr>cancelled := True\<rparr> else t) (timers h)\<rparr>"

definition same_slot :: "evtype \<Rightarrow> int \<Rightarrow> listener \<Rightarrow> bool" where
  "same_slot ev fd l = (l_evtype l = ev \<and> l_fileno l = fd)"

definition hub_add :: "evtype \<Rightarrow> int \<Rightarrow> fiber \<Rightarrow> hub \<Rightarrow> listener outcome \<times> hub" where
  "hub_add ev fd c h =
     (if list_ex (same_slot ev fd) (listeners h)
      then (Inl (Exn RuntimeError ''Second simultaneous listener on the same descriptor''), h)
      else (let l = \<lparr>l_evtype = ev, l_fileno = fd, l_cb = c\<rparr>
            in (Inr l, h\<lparr>listeners := listeners h @ [l]\<rparr>)))"

definition hub_remove :: "listener \<Rightarrow> hub \<Rightarrow> hub" where
  "hub_remove l h =
     h\<lparr>listeners := filter (\<lambda>k. \<not> same_slot (l_evtype l) (l_fileno l) k) (listeners h)\<rparr>"

text \<open>
  Modelled from the spec: \<open>greenlib.switch(fiber, value, exc)\<close> is switch-to (the
  target's suspension returns \<open>value\<close>) when \<open>exc\<close> is None and throw-into (the
  target's suspension raises \<open>exc\<close>) otherwise. It is what the suspended
  \<open>hub.switch()\<close> of the target hands back.
\<close>

definition greenlib_switch :: "pyval \<Rightarrow> exn option \<Rightarrow> pyval outcome" where
  "greenlib_switch v x = (case x of None \<Rightarrow> Inr v | Some e \<Rightarrow> Inl e)"

section \<open>coros.event\<close>

text \<open>
  \<open>result\<close> is \<open>self._result\<close>, read through the test \<open>self._result is NOT_USED\<close>:
  \<open>NOT_USED\<close> when the attribute is the module's sentinel (the event is fresh), and the
  value held otherwise (the event is triggered). \<open>stored r\<close> is what the attribute reads
  as after \<open>self._result = r\<close>: assigning the sentinel itself leaves the event fresh.
  \<open>exc\<close> is \<open>self._exc\<close>, an attribute that exists only after the first \<open>send\<close>.
  \<open>waiters\<close> is the key set of the dict \<open>self._waiters\<close>, in insertion order.
\<close>

datatype slot = NOT_USED | Value pyval

definition stored :: "pyval \<Rightarrow> slot" where
  "stored r = (if r = Sentinel then NOT_USED else Value r)"

datatype 'a attr = Missing | Bound 'a

record event =
  result :: slot
  exc :: "exn option attr"
  waiters :: "fiber list"
  epoch :: real

definition dict_set :: "fiber \<Rightarrow> fiber list \<Rightarrow> fiber list" where
  "dict_set k ks = (if k \<in> set ks then ks else ks @ [k])"

definition reset :: "real \<Rightarrow> event \<Rightarrow> unit outcome \<times> event" where
  "reset now ev =
     (if result ev = NOT_USED
      then (Inl (Exn AssertionError ''Trying to re-reset() a fresh event.''), ev)
      else (Inr (), ev\<lparr>epoch := now, result := NOT_USED, waiters := []\<rparr>))"

text \<open>The constructor calls \<open>reset\<close> on an object whose class attribute \<open>_result\<close> is None.\<close>

definition event_init :: "real \<Rightarrow> unit outcome \<times> event" where
  "event_init now = reset now \<lparr>result = Value PyNone, exc = Missing, waiters = [], epoch = 0\<rparr>"

definition wait :: "fiber \<Rightarrow> event \<Rightarrow> pyval blocking \<times> event" where
  "wait current ev =
     (case result ev of
        NOT_USED \<Rightarrow> (Switched, ev\<lparr>waiters := dict_set current (waiters ev)\<rparr>)
      | Value v \<Rightarrow>
         (case exc ev of
            Missing \<Rightarrow> (Done (Inl (Exn AttributeError ''_exc'')), ev)
          | Bound (Some e) \<Rightarrow> (Done (Inl e), ev)
          | Bound None \<Rightarrow> (Done (Inr v), ev)))"

definition cancel :: "fiber \<Rightarrow> fiber \<Rightarrow> hub \<times> event \<Rightarrow> hub \<times> event" where
  "cancel current waiter s =
     (case s of (h, ev) \<Rightarrow>
        if waiter \<in> set (waiters ev)
        then (snd (schedule_call current 0
                     (GreenlibSwitch waiter PyNone (Some (Exn Cancelled ''''))) h),
              ev\<lparr>waiters := removeAll waiter (waiters ev)\<rparr>)
        else (h, ev))"

definition send :: "fiber \<Rightarrow> pyval \<Rightarrow> exn option \<Rightarrow> hub \<times> event \<Rightarrow> unit outcome \<times> hub \<times> event" where
  "send current r x s =
     (case s of (h, ev) \<Rightarrow>
        if result ev \<noteq> NOT_USED
        then (Inl (Exn AssertionError ''Trying to re-send() an already-triggered event.''), h, ev)
        else (let ev' = ev\<lparr>result := stored r, exc := Bound x\<rparr>
              in (Inr (),
                  foldl (\<lambda>h' waiter. snd (schedule_call current 0 (GreenlibSwitch waiter r None) h'))
                        h (waiters ev'),
                  ev')))"

text \<open>
  What the hub does when it runs a timer's callback: \<open>greenlib.switch\<close> resumes the
  target as above; \<open>greenlet.throw(x)\<close> raises in the target the exception \<open>x\<close>, or
  an instance of \<open>x\<close> when it is a class. A \<open>wait()\<close> or \<open>trampoline()\<close> suspended in
  \<open>return hub.switch()\<close> returns or raises exactly that.
\<close>

definition throw_value :: "pyval \<Rightarrow> exn" where
  "throw_value x =
     (case x of
        PyExc e \<Rightarrow> e
      | PyClass c \<Rightarrow> Exn c ''''
      | _ \<Rightarrow> Exn TypeError ''exceptions must be classes, or instances'')"

definition resume_of :: "callback \<Rightarrow> fiber \<times> pyval outcome" where
  "resume_of c =
     (case c of
        GreenlibSwitch g v x \<Rightarrow> (g, greenlib_switch v x)
      | Throw g x \<Rightarrow> (g, Inl (throw_value x)))"

section \<open>hubs.trampoline\<close>

text \<open>
  \<open>fd\<close> is an object with a \<open>fileno()\<close> method or the descriptor itself; \<open>read\<close> and
  \<open>write\<close> are the truth values of the arguments; \<open>timeout\<close> is None or seconds. The
  first argument stands for \<open>hub.switch()\<close>: whatever the hub and the other fibers do
  while this one is suspended, ending with the value switched in or the exception thrown
  in. With neither direction requested the name \<open>listener\<close> is unbound when the inner
  \<open>finally\<close> reads it.
\<close>

datatype fd_arg = FileObject int | Descriptor int

definition fileno_of :: "fd_arg \<Rightarrow> int" where
  "fileno_of fd = (case fd of FileObject n \<Rightarrow> n | Descriptor n \<Rightarrow> n)"

definition trampoline ::
  "(hub \<Rightarrow> pyval outcome \<times> hub) \<Rightarrow> fiber \<Rightarrow> fd_arg \<Rightarrow> bool \<Rightarrow> bool \<Rightarrow> real option \<Rightarrow> pyval
     \<Rightarrow> hub \<Rightarrow> pyval outcome \<times> hub" where
  "trampoline hub_switch current fd read write timeout timeout_exc hub0 =
     (if greenlet hub0 = current
      then (Inl (Exn AssertionError ''do not call blocking functions from the mainloop''), hub0)
      else if read \<and> write
      then (Inl (Exn AssertionError ''not allowed to trampoline for reading and writing''), hub0)
      else
        let fileno = fileno_of fd;
            (t, h1) = (case timeout of
                         None \<Rightarrow> (None, hub0)
                       | Some s \<Rightarrow> (case schedule_call_global s (Throw current timeout_exc) hub0 of
                                     (n, h) \<Rightarrow> (Some n, h)));
            (r, h4) =
              (case (if read then (case hub_add READ fileno current h1 of
                                     (Inl e, h) \<Rightarrow> (Inl e, h) | (Inr l, h) \<Rightarrow> (Inr (Some l), h))
                     else if write then (case hub_add WRITE fileno current h1 of
                                     (Inl e, h) \<Rightarrow> (Inl e, h) | (Inr l, h) \<Rightarrow> (Inr (Some l), h))
                     else (Inr None, h1)) of
                 (Inl e, h2) \<Rightarrow> (Inl e, h2)
               | (Inr listener, h2) \<Rightarrow>
                   (case hub_switch h2 of (r, h3) \<Rightarrow>
                      (case listener of
                         None \<Rightarrow> (Inl (Exn UnboundLocalError
                                   ''local variable 'listener' referenced before assignment''), h3)
                       | Some l \<Rightarrow> (r, hub_remove l h3))))
        in (r, case t of None \<Rightarrow> h4 | Some n \<Rightarrow> timer_cancel n h4))"

text \<open>
  The hub as \<open>trampoline\<close> leaves it when it switches away with one direction requested:
  the timeout timer scheduled (when a timeout is given) and the listener installed.
\<close>

definition installed_listener :: "fiber \<Rightarrow> fd_arg \<Rightarrow> bool \<Rightarrow> listener" where
  "installed_listener current fd read =
     \<lparr>l_evtype = (if read then READ else WRITE), l_fileno = fileno_of fd, l_cb = current\<rparr>"

definition suspended_hub :: "fiber \<Rightarrow> fd_arg \<Rightarrow> bool \<Rightarrow> real option \<Rightarrow> pyval \<Rightarrow> hub \<Rightarrow> hub" where
  "suspended_hub current fd read timeout timeout_exc hub0 =
     (case timeout of
        None \<Rightarrow> hub0
      | Some s \<Rightarrow> snd (schedule_call_global s (Throw current timeout_exc) hub0))
     \<lparr>listeners := listeners hub0 @ [installed_listener current fd read]\<rparr>"

section \<open>hubs.get_default_hub and hubs.use_hub\<close>

text \<open>
  What the two functions read of the interpreter: whether
  \<open>'twisted.internet.reactor'\<close> is in \<open>sys.modules\<close>, whether
  \<open>import eventlet.hubs.epolls\<close> succeeds (otherwise it raises ImportError), whether the
  original \<open>select\<close> module has \<open>poll\<close>, the environment variable \<open>EVENTLET_HUB\<close>,
  which names \<open>__import__('eventlet.hubs.' + name)\<close> can import, and which hub modules
  have an attribute \<open>Hub\<close>.
\<close>

datatype hub_module = twistedr | epolls | poll | selects | hubs_module string

record interpreter =
  twisted_reactor_loaded :: bool
  epolls_importable :: bool
  select_has_poll :: bool
  EVENTLET_HUB :: "string option"
  importable :: "string \<Rightarrow> bool"
  has_Hub :: "hub_module \<Rightarrow> bool"

definition get_default_hub :: "interpreter \<Rightarrow> hub_module" where
  "get_default_hub env =
     (if twisted_reactor_loaded env then twistedr
      else if epolls_importable env then epolls
      else if select_has_poll env then poll
      else selects)"

text \<open>
  The argument of \<open>use_hub\<close>: None, a string, a hub module, or any other object, given
  with the object its attribute \<open>Hub\<close> holds when it has one.
\<close>

datatype mod_arg = ModNone | ModStr string | ModModule hub_module | ModObject nat "nat option"

datatype hub_factory = HubOf hub_module | TheModule hub_module | TheObject nat

record threadlocal =
  tl_hub :: "hub_factory option"
  tl_Hub :: "hub_factory option"

definition py_space :: "char \<Rightarrow> bool" where
  "py_space c = (c \<in> set [CHR '' '', CHR 0x09, CHR 0x0A, CHR 0x0B, CHR 0x0C, CHR 0x0D])"

definition strip :: "string \<Rightarrow> string" where
  "strip s = rev (dropWhile py_space (rev (dropWhile py_space s)))"

definition module_named :: "string \<Rightarrow> hub_module" where
  "module_named s =
     (if s = ''twistedr'' then twistedr else if s = ''epolls'' then epolls
      else if s = ''poll'' then poll else if s = ''selects'' then selects
      else hubs_module s)"

definition hub_attr :: "interpreter \<Rightarrow> hub_module \<Rightarrow> hub_factory" where
  "hub_attr env m = (if has_Hub env m then HubOf m else TheModule m)"

definition use_hub :: "interpreter \<Rightarrow> mod_arg \<Rightarrow> threadlocal \<Rightarrow> unit outcome \<times> threadlocal" where
  "use_hub env mod0 tls =
     (let mod1 = (if mod0 = ModNone
                  then (case EVENTLET_HUB env of None \<Rightarrow> ModNone | Some s \<Rightarrow> ModStr s)
                  else mod0);
          mod2 = (if mod1 = ModNone then ModModule (get_default_hub env) else mod1);
          tl1 = tls\<lparr>tl_hub := None\<rparr>
      in case mod2 of
           ModStr s \<Rightarrow>
             if strip s = [] then (Inl (Exn AssertionError ''Need to specify a hub''), tl1)
             else if \<not> importable env s then (Inl (Exn ImportError s), tl1)
             else (Inr (), tl1\<lparr>tl_Hub := Some (hub_attr env (module_named s))\<rparr>)
         | ModModule m \<Rightarrow> (Inr (), tl1\<lparr>tl_Hub := Some (hub_attr env m)\<rparr>)
         | ModObject n a \<Rightarrow>
             (Inr (), tl1\<lparr>tl_Hub := Some (TheObject (case a of Some k \<Rightarrow> k | None \<Rightarrow> n))\<rparr>)
         | ModNone \<Rightarrow> (Inr (), tl1))"

section \<open>tpool\<close>

text \<open>
  A request is \<open>(e, meth, args, kwargs)\<close>, the event given by its number; \<open>None\<close> in the
  request queue is the sentinel of \<open>killall\<close>. The first argument of the functions below is
  \<open>meth(*args, **kwargs)\<close>: what the callable returns or raises. \<open>wake_bytes\<close> counts the
  bytes written to \<open>_wfile\<close> and not yet read.

  Modelled from the spec: greenthread.Event is not among the sources. \<open>sends\<close> lists the
  \<open>e.send(rv)\<close> calls made, in order, and \<open>e.wait()\<close> returns what was sent to \<open>e\<close>
  (\<open>send(x); wait() == x\<close>), the caller staying suspended while nothing has been sent.
\<close>

type_synonym request = "nat \<times> pyval \<times> pyval \<times> pyval"

type_synonym callables = "pyval \<Rightarrow> pyval \<Rightarrow> pyval \<Rightarrow> pyval outcome"

record tpool =
  setup_already :: bool
  reqq :: "request option list"
  rspq :: "(nat \<times> pyval) list"
  wake_bytes :: nat
  sends :: "(nat \<times> pyval) list"
  events :: nat

text \<open>
  A worker thread runs until it is blocked in \<open>_reqq.get()\<close> on the empty queue, has
  returned, or has died of an exception that left its function. The bridge fiber
  \<open>tpool_trampoline\<close> is given what its reads of \<open>_rfile\<close> return: one byte, the empty
  string, or ValueError because the pipe is closed; with no read left it is suspended in
  \<open>_rfile.read(1)\<close>.
\<close>

datatype thread_state = In_get | Returned | Died exn

definition exc_info :: "exn \<Rightarrow> pyval" where
  "exc_info x = PyTuple [PyClass (cls x), PyExc x, PyTraceback]"

definition SYS_EXCS :: "exn \<Rightarrow> bool" where
  "SYS_EXCS x = (isinstance x KeyboardInterrupt \<or> isinstance x SystemExit)"

definition signal_t2e :: "tpool \<Rightarrow> tpool" where
  "signal_t2e st = st\<lparr>wake_bytes := wake_bytes st + 1\<rparr>"

function tworker :: "callables \<Rightarrow> tpool \<Rightarrow> thread_state \<times> tpool" where
  "tworker call st =
     (case reqq st of
        [] \<Rightarrow> (In_get, st)
      | None # q \<Rightarrow> (Returned, st\<lparr>reqq := q\<rparr>)
      | Some (e, meth, args, kwargs) # q \<Rightarrow>
          (case call meth args kwargs of
             Inr rv \<Rightarrow> tworker call (signal_t2e (st\<lparr>reqq := q, rspq := rspq st @ [(e, rv)]\<rparr>))
           | Inl x \<Rightarrow>
               if SYS_EXCS x then (Died x, st\<lparr>reqq := q\<rparr>)
               else if isinstance x Exception
               then tworker call (signal_t2e (st\<lparr>reqq := q, rspq := rspq st @ [(e, exc_info x)]\<rparr>))
               else (Died x, st\<lparr>reqq := q\<rparr>)))"
  by pat_completeness auto
termination
  by (relation "measure (\<lambda>(call, st). length (reqq st))") (auto simp: signal_t2e_def)

declare tworker.simps [simp del]

fun drain :: "(nat \<times> pyval) list \<Rightarrow> (nat \<times> pyval) list \<Rightarrow> (nat \<times> pyval) list" where
  "drain [] sent = sent"
| "drain ((e, rv) # q) sent = drain q (sent @ [(e, rv)])"

datatype read_result = One_byte | Empty_string | Closed_pipe

fun tpool_trampoline :: "read_result list \<Rightarrow> tpool \<Rightarrow> thread_state \<times> tpool" where
  "tpool_trampoline [] st = (In_get, st)"
| "tpool_trampoline (Closed_pipe # rs) st = (Returned, st)"
| "tpool_trampoline (Empty_string # rs) st = (Died (Exn AssertionError ''''), st)"
| "tpool_trampoline (One_byte # rs) st =
     tpool_trampoline rs
       (st\<lparr>wake_bytes := wake_bytes st - 1, sends := drain (rspq st) (sends st), rspq := []\<rparr>)"

definition tpool_setup :: "tpool \<Rightarrow> tpool" where
  "tpool_setup st =
     (if setup_already st then st
      else \<lparr>setup_already = True, reqq = [], rspq = [], wake_bytes = 0, sends = [], events = 0\<rparr>)"

definition esend :: "pyval \<Rightarrow> pyval \<Rightarrow> pyval \<Rightarrow> tpool \<Rightarrow> nat \<times> tpool" where
  "esend meth args kwargs st =
     (events st, st\<lparr>events := events st + 1, reqq := reqq st @ [Some (events st, meth, args, kwargs)]\<rparr>)"

definition event_wait :: "tpool \<Rightarrow> nat \<Rightarrow> pyval blocking" where
  "event_wait st e = (case map_of (sends st) e of None \<Rightarrow> Switched | Some rv \<Rightarrow> Done (Inr rv))"

text \<open>
  Python 2's \<open>raise c, e, tb\<close>: the third argument must be a traceback or None; with a
  class first, the exception raised is \<open>e\<close> itself when it is an instance of the class and
  an instance of the class made from \<open>e\<close> otherwise; with an instance first, \<open>e\<close> must be
  None.
\<close>

definition raise3 :: "pyval \<Rightarrow> pyval \<Rightarrow> pyval \<Rightarrow> exn" where
  "raise3 c e tb =
     (if tb \<noteq> PyNone \<and> tb \<noteq> PyTraceback
      then Exn TypeError ''raise: arg 3 must be a traceback or None''
      else case c of
             PyClass k \<Rightarrow>
               (case e of
                  PyExc x \<Rightarrow> if isinstance x k then x else Exn k (msg x)
                | PyStr s \<Rightarrow> Exn k s
                | _ \<Rightarrow> Exn k '''')
           | PyExc x \<Rightarrow>
               if e = PyNone then x
               else Exn TypeError ''instance exception may not have a separate value''
           | _ \<Rightarrow> Exn TypeError ''exceptions must be classes or instances'')"

definition is_exc_info :: "pyval \<Rightarrow> bool" where
  "is_exc_info rv =
     (case rv of
        PyTuple xs \<Rightarrow> length xs = 3 \<and> (case xs ! 1 of PyExc x \<Rightarrow> isinstance x Exception | _ \<Rightarrow> False)
      | _ \<Rightarrow> False)"

definition erecv :: "tpool \<Rightarrow> nat \<Rightarrow> pyval blocking" where
  "erecv st e =
     (case event_wait st e of
        Switched \<Rightarrow> Switched
      | Done (Inl x) \<Rightarrow> Done (Inl x)
      | Done (Inr rv) \<Rightarrow>
          if is_exc_info rv
          then (case rv of PyTuple xs \<Rightarrow> Done (Inl (raise3 (xs ! 0) (xs ! 1) (xs ! 2))) | _ \<Rightarrow> Done (Inr rv))
          else Done (Inr rv))"

text \<open>
  \<open>execute\<close> with the one schedule in which the request is served while the caller is
  suspended in \<open>e.wait()\<close>: a worker thread takes what is in the request queue, and the
  bridge fiber reads the bytes the worker wrote.
\<close>

definition tpool_execute :: "callables \<Rightarrow> pyval \<Rightarrow> pyval \<Rightarrow> pyval \<Rightarrow> tpool \<Rightarrow> pyval blocking \<times> tpool" where
  "tpool_execute call meth args kwargs st =
     (case esend meth args kwargs (tpool_setup st) of (e, st1) \<Rightarrow>
      case tworker call st1 of (w, st2) \<Rightarrow>
      case tpool_trampoline (replicate (wake_bytes st2) One_byte) st2 of (b, st3) \<Rightarrow>
        (erecv st3 e, st3))"

text \<open>
  For stating what a worker thread does with a batch of requests: a request is ordinary
  when its callable returns or raises an Exception that is not one of \<open>SYS_EXCS\<close>, and
  its response is the pair the worker puts on the response queue.
\<close>

definition ordinary :: "callables \<Rightarrow> request \<Rightarrow> bool" where
  "ordinary call rq =
     (case rq of (e, meth, args, kwargs) \<Rightarrow>
        (case call meth args kwargs of
           Inr rv \<Rightarrow> True
         | Inl x \<Rightarrow> \<not> SYS_EXCS x \<and> isinstance x Exception))"

definition response :: "callables \<Rightarrow> request \<Rightarrow> nat \<times> pyval" where
  "response call rq =
     (case rq of (e, meth, args, kwargs) \<Rightarrow>
        (e, case call meth args kwargs of Inr rv \<Rightarrow> rv | Inl x \<Rightarrow> exc_info x))"

text \<open>Concrete inputs used below: a callable that raises SystemExit, and an interpreter
  in which the twisted reactor is loaded and epoll is available.\<close>

definition exiting_callable :: callables where
  "exiting_callable meth args kwargs = Inl (Exn SystemExit '''')"

definition twisted_with_epoll :: interpreter where
  "twisted_with_epoll =
     \<lparr>twisted_reactor_loaded = True, epolls_importable = True, select_has_poll = True,
      EVENTLET_HUB = None, importable = (\<lambda>s. True), has_Hub = (\<lambda>m. True)\<rparr>"

section \<open>coros.Actor\<close>

text \<open>
  The fiber of \<open>run_forever\<close> runs only when the hub switches to it, and then until it
  suspends again; everyone else (the callers of \<open>cast\<close>) runs in between. The state
  records where that fiber is suspended: not yet started, in \<open>self._event.wait()\<close>, inside
  a call of \<open>received\<close> that has itself suspended, or dead with the exception that ended
  it. \<open>received\<close> is the subclass's method: for each message it returns, raises, or
  suspends and finishes later.

  Besides \<open>self._mailbox\<close>, \<open>self._event\<close> and the hub, the state keeps three
  observations that the code does not store: the messages appended by \<open>cast\<close>, the
  arguments of the calls of \<open>received\<close>, both in order, and the number of calls of
  \<open>received\<close> in progress.
\<close>

datatype suspension = Not_started | In_wait | In_received | Dead exn

datatype received_does = Return_now | Raise_now exn | Suspend

record actor =
  mailbox :: "pyval list"
  a_event :: event
  a_hub :: hub
  a_fiber :: fiber
  a_at :: suspension
  enqueued :: "pyval list"
  calls :: "pyval list"
  depth :: nat

definition Actor_init :: "real \<Rightarrow> fiber \<Rightarrow> hub \<Rightarrow> actor" where
  "Actor_init now g h =
     \<lparr>mailbox = [], a_event = snd (event_init now), a_hub = h, a_fiber = g, a_at = Not_started,
      enqueued = [], calls = [], depth = 0\<rparr>"

function run_forever :: "(pyval \<Rightarrow> received_does) \<Rightarrow> real \<Rightarrow> actor \<Rightarrow> actor" where
  "run_forever received now a =
     (if mailbox a = [] then
        (case wait (a_fiber a) (a_event a) of
           (Switched, ev) \<Rightarrow> a\<lparr>a_event := ev, a_at := In_wait\<rparr>
         | (Done (Inl e), ev) \<Rightarrow> a\<lparr>a_event := ev, a_at := Dead e\<rparr>
         | (Done (Inr v), ev) \<Rightarrow>
             (case reset now ev of
                (Inl e, ev') \<Rightarrow> a\<lparr>a_event := ev', a_at := Dead e\<rparr>
              | (Inr u, ev') \<Rightarrow> run_forever received now (a\<lparr>a_event := ev'\<rparr>)))
      else
        (case received (hd (mailbox a)) of
           Suspend \<Rightarrow>
             a\<lparr>calls := calls a @ [hd (mailbox a)], depth := depth a + 1, a_at := In_received\<rparr>
         | Raise_now e \<Rightarrow> a\<lparr>calls := calls a @ [hd (mailbox a)], a_at := Dead e\<rparr>
         | Return_now \<Rightarrow>
             run_forever received now
               (a\<lparr>calls := calls a @ [hd (mailbox a)], mailbox := tl (mailbox a)\<rparr>)))"
  by pat_completeness auto
termination
proof (relation "measure (\<lambda>(received, now, a).
          2 * length (mailbox a) + (if result (a_event a) = NOT_USED then 0 else 1))")
  show "wf (measure (\<lambda>(received, now, a).
          2 * length (mailbox a) + (if result (a_event a) = NOT_USED then 0 else 1)))"
    by simp
next
  fix received :: "pyval \<Rightarrow> received_does" and now :: real and a :: actor
    and x :: "pyval blocking" and ev :: event and x2 :: "pyval outcome" and v :: pyval
    and xa :: "unit outcome" and ev' :: event and u :: unit
  assume "mailbox a = []" and w: "(x, ev) = wait (a_fiber a) (a_event a)"
    and "x = Done x2" and "x2 = Inr v" and r: "(xa, ev') = reset now ev" and "xa = Inr u"
  from w \<open>x = Done x2\<close> have "result (a_event a) \<noteq> NOT_USED" and "ev = a_event a"
    by (auto simp: wait_def split: slot.splits attr.splits option.splits)
  moreover from r \<open>xa = Inr u\<close> have "result ev' = NOT_USED"
    by (auto simp: reset_def split: if_splits)
  ultimately show "((received, now, a\<lparr>a_event := ev'\<rparr>), (received, now, a))
      \<in> measure (\<lambda>(received, now, a).
          2 * length (mailbox a) + (if result (a_event a) = NOT_USED then 0 else 1))"
    by simp
next
  fix received :: "pyval \<Rightarrow> received_does" and now :: real and a :: actor
  assume "mailbox a \<noteq> []"
  then show "((received, now, a\<lparr>calls := calls a @ [hd (mailbox a)], mailbox := tl (mailbox a)\<rparr>),
        (received, now, a))
      \<in> measure (\<lambda>(received, now, a).
          2 * length (mailbox a) + (if result (a_event a) = NOT_USED then 0 else 1))"
    by (cases "mailbox a") simp_all
qed

declare run_forever.simps [simp del]

definition cast :: "fiber \<Rightarrow> pyval \<Rightarrow> actor \<Rightarrow> unit outcome \<times> actor" where
  "cast current message a =
     (let a1 = a\<lparr>mailbox := mailbox a @ [message], enqueued := enqueued a @ [message]\<rparr>
      in if length (mailbox a1) = 1
         then (case send current PyNone None (a_hub a1, a_event a1) of
                 (r, h, ev) \<Rightarrow> (r, a1\<lparr>a_hub := h, a_event := ev\<rparr>))
         else (Inr (), a1))"

text \<open>
  Modelled from the spec: the hub's run loop is not among the sources. The hub runs its
  pending timers in the order they were scheduled; \<open>wake_calls g h\<close> are the pending
  callbacks that resume fiber \<open>g\<close>, and \<open>fire_first g\<close> marks the first of them fired.
\<close>

definition resumes :: "fiber \<Rightarrow> timer \<Rightarrow> bool" where
  "resumes g t = (\<not> cancelled t \<and> \<not> fired t \<and> fst (resume_of (cb t)) = g)"

definition wake_calls :: "fiber \<Rightarrow> hub \<Rightarrow> callback list" where
  "wake_calls g h = map cb (filter (resumes g) (timers h))"

fun fire_first :: "fiber \<Rightarrow> timer list \<Rightarrow> timer list" where
  "fire_first g [] = []"
| "fire_first g (t # ts) = (if resumes g t then t\<lparr>fired := True\<rparr> # ts else t # fire_first g ts)"

text \<open>
  The rest of the loop body after each suspension: \<open>self._event.wait()\<close> returns or raises
  what was switched or thrown in, then \<open>self._event.reset()\<close>; a suspended \<open>received\<close>
  returns or raises, then \<open>self._mailbox.popleft()\<close>.
\<close>

definition after_wait :: "(pyval \<Rightarrow> received_does) \<Rightarrow> real \<Rightarrow> pyval outcome \<Rightarrow> actor \<Rightarrow> actor" where
  "after_wait received now r a =
     (case r of
        Inl e \<Rightarrow> a\<lparr>a_at := Dead e\<rparr>
      | Inr v \<Rightarrow>
          (case reset now (a_event a) of
             (Inl e, ev') \<Rightarrow> a\<lparr>a_event := ev', a_at := Dead e\<rparr>
           | (Inr u, ev') \<Rightarrow> run_forever received now (a\<lparr>a_event := ev'\<rparr>)))"

definition after_received :: "(pyval \<Rightarrow> received_does) \<Rightarrow> real \<Rightarrow> exn option \<Rightarrow> actor \<Rightarrow> actor" where
  "after_received received now r a =
     (case r of
        Some e \<Rightarrow> a\<lparr>depth := depth a - 1, a_at := Dead e\<rparr>
      | None \<Rightarrow>
          (case mailbox a of
             [] \<Rightarrow> a\<lparr>depth := depth a - 1, a_at := Dead (Exn IndexError ''pop from an empty deque'')\<rparr>
           | m # ms \<Rightarrow>
               run_forever received now (a\<lparr>depth := depth a - 1, mailbox := ms\<rparr>)))"

text \<open>
  What can happen to an actor: some fiber calls \<open>cast\<close>; the hub switches to the actor's
  fiber (its first run, or the pending call that wakes it from \<open>wait\<close>); a suspended call
  of \<open>received\<close> finishes, returning or raising. Nobody kills the actor's fiber or
  cancels the call that wakes it.
\<close>

datatype action = Cast fiber pyval | Switch_in | Finish "exn option"

definition step :: "(pyval \<Rightarrow> received_does) \<Rightarrow> real \<Rightarrow> actor \<Rightarrow> action \<Rightarrow> actor" where
  "step received now a act =
     (case act of
        Cast f m \<Rightarrow> snd (cast f m a)
      | Switch_in \<Rightarrow>
          (case a_at a of
             Not_started \<Rightarrow> run_forever received now a
           | In_wait \<Rightarrow>
               (case wake_calls (a_fiber a) (a_hub a) of
                  [] \<Rightarrow> a
                | c # cs \<Rightarrow>
                    after_wait received now (snd (resume_of c))
                      (a\<lparr>a_hub := (a_hub a)\<lparr>timers := fire_first (a_fiber a) (timers (a_hub a))\<rparr>\<rparr>))
           | _ \<Rightarrow> a)
      | Finish r \<Rightarrow>
          (case a_at a of In_received \<Rightarrow> after_received received now r a | _ \<Rightarrow> a))"

definition run_actions :: "(pyval \<Rightarrow> received_does) \<Rightarrow> real \<Rightarrow> action list \<Rightarrow> actor \<Rightarrow> actor" where
  "run_actions received now acts a = foldl (step received now) a acts"

text \<open>
  Predicates on the actor's state at the moments the owner's fiber is not running. At the
  head of the loop every call of \<open>received\<close> made so far has returned, in the order the
  messages were appended, and what is left is the mailbox. Inside a call of \<open>received\<close>
  the message being processed is still the first of the mailbox. \<open>settled\<close> adds what
  holds of the event at each suspension: while the owner waits, the event is fresh exactly
  when the mailbox is empty, and a triggered event has exactly one wake-up call pending.
\<close>

definition exc_ok :: "event \<Rightarrow> bool" where
  "exc_ok ev = (result ev = NOT_USED \<or> exc ev = Bound None)"

definition at_loop_head :: "actor \<Rightarrow> bool" where
  "at_loop_head a =
     (calls a @ mailbox a = enqueued a \<and> depth a = 0 \<and> waiters (a_event a) = []
      \<and> wake_calls (a_fiber a) (a_hub a) = [] \<and> exc_ok (a_event a))"

definition in_call :: "actor \<Rightarrow> bool" where
  "in_call a =
     (mailbox a \<noteq> [] \<and> calls a \<noteq> [] \<and> last (calls a) = hd (mailbox a)
      \<and> butlast (calls a) @ mailbox a = enqueued a
      \<and> waiters (a_event a) = [] \<and> wake_calls (a_fiber a) (a_hub a) = [])"

definition settled :: "actor \<Rightarrow> bool" where
  "settled a =
     (exc_ok (a_event a) \<and>
      (case a_at a of
         Not_started \<Rightarrow> at_loop_head a \<and> (result (a_event a) = NOT_USED \<longleftrightarrow> mailbox a = [])
       | In_wait \<Rightarrow>
           calls a @ mailbox a = enqueued a \<and> depth a = 0 \<and>
           (if result (a_event a) = NOT_USED
            then mailbox a = [] \<and> waiters (a_event a) = [a_fiber a]
                 \<and> wake_calls (a_fiber a) (a_hub a) = []
            else mailbox a \<noteq> []
                 \<and> wake_calls (a_fiber a) (a_hub a) = [GreenlibSwitch (a_fiber a) PyNone None])
       | In_received \<Rightarrow> in_call a \<and> depth a = 1
       | Dead e \<Rightarrow> in_call a \<and> depth a = 0))"

text \<open>
  The messages of the \<open>cast\<close> calls of a run, in order, and the part of the mailbox that
  no call of \<open>received\<close> has been made for yet.
\<close>

definition cast_messages :: "action list \<Rightarrow> pyval list" where
  "cast_messages acts = concat (map (\<lambda>act. case act of Cast f m \<Rightarrow> [m] | _ \<Rightarrow> []) acts)"

definition unreceived :: "actor \<Rightarrow> pyval list" where
  "unreceived a = (if a_at a = Not_started \<or> a_at a = In_wait then mailbox a else tl (mailbox a))"

text \<open>
  \<open>Actor.received\<close> as the class defines it raises NotImplementedError for every message.
  \<open>settle n\<close> lets the owner run \<open>n\<close> times: the hub switches to it, and a call of
  \<open>received\<close> that has suspended returns. An actor is quiet when its owner waits on the
  fresh event with an empty mailbox.
\<close>

definition default_received :: "pyval \<Rightarrow> received_does" where
  "default_received message = Raise_now (Exn NotImplementedError '''')"

definition settle :: "nat \<Rightarrow> action list" where
  "settle n = concat (replicate n [Switch_in, Finish None])"

definition quiet :: "actor \<Rightarrow> bool" where
  "quiet a = (a_at a = In_wait \<and> mailbox a = [] \<and> result (a_event a) = NOT_USED)"

section \<open>coros.CoroutinePool\<close>

text \<open>
  Events are objects shared between fibers, so here they live in a store, numbered; a
  Python value \<open>PyEvent n\<close> refers to event \<open>n\<close>. A job is the tuple
  \<open>(evt, func, args, kw)\<close> sent to a worker's private event (its \<open>sender\<close>). The
  first argument of the functions below is \<open>func(*args, **kw)\<close>: what the call returns or
  raises, and what it does to the hub's timers meanwhile.

  Modelled from the spec: \<open>pools.Pool\<close> is not among the sources. \<open>put\<close> returns a
  worker to the free list; \<open>get\<close> takes a free worker, creates one when none is free and
  the pool is below \<open>max_size\<close>, and suspends the caller when none is free and the pool
  is at capacity. \<open>spawned\<close> lists the senders whose \<open>_main_loop\<close> fibers
  \<open>api.spawn\<close> has scheduled.
\<close>

type_synonym job_callables = "pyval \<Rightarrow> pyval \<Rightarrow> pyval \<Rightarrow> hub \<Rightarrow> pyval outcome \<times> hub"

record pool =
  p_hub :: hub
  p_events :: "nat \<Rightarrow> event"
  p_next_event :: nat
  free_items :: "nat list"
  current_size :: nat
  max_size :: nat
  spawned :: "nat list"

definition put :: "nat \<Rightarrow> pool \<Rightarrow> pool" where
  "put item p = p\<lparr>free_items := free_items p @ [item]\<rparr>"

definition create :: "real \<Rightarrow> pool \<Rightarrow> nat \<times> pool" where
  "create now p =
     (let sender = p_next_event p
      in (sender,
          p\<lparr>p_next_event := sender + 1,
            p_events := (p_events p)(sender := snd (event_init now)),
            spawned := spawned p @ [sender]\<rparr>))"

definition pool_get :: "real \<Rightarrow> pool \<Rightarrow> nat blocking \<times> pool" where
  "pool_get now p =
     (case free_items p of
        item # rest \<Rightarrow> (Done (Inr item), p\<lparr>free_items := rest\<rparr>)
      | [] \<Rightarrow>
          if current_size p < max_size p
          then (case create now (p\<lparr>current_size := current_size p + 1\<rparr>) of
                  (item, p1) \<Rightarrow> (Done (Inr item), p1))
          else (Switched, p))"

definition evt_send :: "fiber \<Rightarrow> pyval \<Rightarrow> pyval \<Rightarrow> exn option \<Rightarrow> pool \<Rightarrow> unit outcome \<times> pool" where
  "evt_send current evt r x p =
     (case evt of
        PyEvent n \<Rightarrow>
          (case send current r x (p_hub p, p_events p n) of
             (out, h, ev) \<Rightarrow> (out, p\<lparr>p_hub := h, p_events := (p_events p)(n := ev)\<rparr>))
      | _ \<Rightarrow> (Inl (Exn AttributeError ''send''), p))"

text \<open>
  The body of the loop of \<open>_main_loop\<close> after \<open>sender.wait()\<close> and \<open>sender.reset()\<close>:
  unpack the job, run it inside the \<open>try\<close>, then cancel the timers of the current fiber
  and put the sender back. An exception that leaves the body ends the worker's fiber.
\<close>

definition run_job :: "job_callables \<Rightarrow> fiber \<Rightarrow> nat \<Rightarrow> pyval \<Rightarrow> pool \<Rightarrow> unit outcome \<times> pool" where
  "run_job call current sender recvd p =
     (case recvd of
        PyTuple [evt, func, args, kw] \<Rightarrow>
          (let (r, h1) = call func args kw (p_hub p);
               (tried, p2) =
                 (case r of
                    Inr res \<Rightarrow> (if evt \<noteq> PyNone then evt_send current evt res None (p\<lparr>p_hub := h1\<rparr>)
                                else (Inr (), p\<lparr>p_hub := h1\<rparr>))
                  | Inl e \<Rightarrow> (Inl e, p\<lparr>p_hub := h1\<rparr>));
               (handled, p3) =
                 (case tried of
                    Inr u \<Rightarrow> (Inr (), p2)
                  | Inl e \<Rightarrow>
                      (if isinstance e GreenletExit then (Inr (), p2)
                       else if isinstance e Exception
                       then (if evt \<noteq> PyNone then evt_send current evt PyNone (Some e) p2
                             else (Inr (), p2))
                       else (Inl e, p2)))
           in (case handled of
                 Inl e \<Rightarrow> (Inl e, p3)
               | Inr u \<Rightarrow> (Inr (), put sender (p3\<lparr>p_hub := cancel_timers current (p_hub p3)\<rparr>))))
      | PyTuple xs \<Rightarrow> (Inl (Exn ValueError ''need 4 values to unpack''), p)
      | _ \<Rightarrow> (Inl (Exn TypeError ''object is not iterable''), p))"

datatype worker_at = Waiting_for_job | Worker_dead exn

text \<open>
  \<open>_main_loop\<close> from the moment \<open>sender.wait()\<close> has handed over \<open>recvd\<close> until the
  worker is suspended in \<open>sender.wait()\<close> again or dead. The loop has no exit, so the
  number of passes is bounded by the first argument; \<open>None\<close> means the bound was reached.
\<close>

fun main_loop ::
  "nat \<Rightarrow> job_callables \<Rightarrow> real \<Rightarrow> fiber \<Rightarrow> nat \<Rightarrow> pyval \<Rightarrow> pool \<Rightarrow> (worker_at \<times> pool) option" where
  "main_loop 0 call now current sender recvd p = None"
| "main_loop (Suc n) call now current sender recvd p =
     (case reset now (p_events p sender) of
        (Inl e, sev) \<Rightarrow> Some (Worker_dead e, p\<lparr>p_events := (p_events p)(sender := sev)\<rparr>)
      | (Inr u, sev) \<Rightarrow>
          (case run_job call current sender recvd (p\<lparr>p_events := (p_events p)(sender := sev)\<rparr>) of
             (Inl e, p1) \<Rightarrow> Some (Worker_dead e, p1)
           | (Inr u, p1) \<Rightarrow>
               (case wait current (p_events p1 sender) of
                  (Switched, sev1) \<Rightarrow>
                    Some (Waiting_for_job, p1\<lparr>p_events := (p_events p1)(sender := sev1)\<rparr>)
                | (Done (Inl e), sev1) \<Rightarrow> Some (Worker_dead e, p1)
                | (Done (Inr v), sev1) \<Rightarrow> main_loop n call now current sender v p1)))"

text \<open>
  \<open>_main_loop\<close> from its first line: the first \<open>sender.wait()\<close> suspends the worker, or
  hands over a job that was sent before the worker ran.
\<close>

definition main_loop_start ::
  "nat \<Rightarrow> job_callables \<Rightarrow> real \<Rightarrow> fiber \<Rightarrow> nat \<Rightarrow> pool \<Rightarrow> (worker_at \<times> pool) option" where
  "main_loop_start n call now current sender p =
     (case wait current (p_events p sender) of
        (Switched, sev) \<Rightarrow> Some (Waiting_for_job, p\<lparr>p_events := (p_events p)(sender := sev)\<rparr>)
      | (Done (Inl e), sev) \<Rightarrow> Some (Worker_dead e, p)
      | (Done (Inr v), sev) \<Rightarrow> main_loop n call now current sender v p)"

text \<open>
  \<open>execute\<close>: a caller that \<open>get\<close> suspends goes on only when a worker is put back, which
  is not followed here.
\<close>

definition pool_execute ::
  "fiber \<Rightarrow> real \<Rightarrow> pyval \<Rightarrow> pyval \<Rightarrow> pyval \<Rightarrow> pool \<Rightarrow> nat blocking \<times> pool" where
  "pool_execute current now func args kw p =
     (case pool_get now p of
        (Switched, p0) \<Rightarrow> (Switched, p0)
      | (Done (Inl e), p0) \<Rightarrow> (Done (Inl e), p0)
      | (Done (Inr sender), p0) \<Rightarrow>
          (let receiver = p_next_event p0;
               p1 = p0\<lparr>p_next_event := receiver + 1,
                       p_events := (p_events p0)(receiver := snd (event_init now))\<rparr>
           in case evt_send current (PyEvent sender) (PyTuple [PyEvent receiver, func, args, kw]) None p1 of
                (Inl e, p2) \<Rightarrow> (Done (Inl e), p2)
              | (Inr u, p2) \<Rightarrow> (Done (Inr receiver), p2)))"

text \<open>
  Concrete inputs used below: a pool whose one worker (fiber 1) is suspended in the
  \<open>wait()\<close> of its sender, event 0, which is in the free list; and a job that raises
  ZeroDivisionError.
\<close>

definition pool_with_idle_worker :: pool where
  "pool_with_idle_worker =
     \<lparr>p_hub = \<lparr>greenlet = 0, timers = [], listeners = []\<rparr>,
      p_events = (\<lambda>n. \<lparr>result = NOT_USED, exc = Missing,
                          waiters = (if n = 0 then [1] else []), epoch = 0\<rparr>),
      p_next_event = 1,
      free_items = [0],
      current_size = 1,
      max_size = 4,
      spawned = []\<rparr>"

definition dividing_by_zero :: job_callables where
  "dividing_by_zero func args kw h = (Inl (Exn ZeroDivisionError ''integer division or modulo by zero''), h)"

chapter \<open>Verified properties\<close>

section \<open>Event: sending twice, and send, reset, send, wait\<close>

text \<open>
  C4. On a triggered event (\<open>_result\<close> is no longer the sentinel) \<open>send\<close> raises the
  AssertionError of its first line at the call, and the hub and the event (stored value,
  stored exception, waiters) are what they were; so a \<open>send\<close> that succeeds was made on
  a fresh event.
\<close>

theorem send_twice_raises:
  "(result ev \<noteq> NOT_USED \<longrightarrow>
      send current r x (h, ev) =
        (Inl (Exn AssertionError ''Trying to re-send() an already-triggered event.''), h, ev))
   \<and> (fst (send current r x (h, ev)) = Inr () \<longleftrightarrow> result ev = NOT_USED)"
  by (simp add: send_def Let_def)

theorem send_twice_raises_witness:
  "result \<lparr>result = Value (PyInt 1), exc = Bound None, waiters = [2], epoch = 0\<rparr> \<noteq> NOT_USED
   \<and> send 1 (PyStr ''whoops'') None
        (\<lparr>greenlet = 0, timers = [], listeners = []\<rparr>,
         \<lparr>result = Value (PyInt 1), exc = Bound None, waiters = [2], epoch = 0\<rparr>) =
      (Inl (Exn AssertionError ''Trying to re-send() an already-triggered event.''),
       \<lparr>greenlet = 0, timers = [], listeners = []\<rparr>,
       \<lparr>result = Value (PyInt 1), exc = Bound None, waiters = [2], epoch = 0\<rparr>)"
  using send_twice_raises [of "\<lparr>result = Value (PyInt 1), exc = Bound None, waiters = [2], epoch = 0\<rparr>"
      1 "PyStr ''whoops''" None "\<lparr>greenlet = 0, timers = [], listeners = []\<rparr>"]
  by simp


text \<open>
  C5, as the code has it. On a fresh event, and so on a newly constructed one, and for
  values \<open>x\<close> and \<open>y\<close> other than the module's sentinel \<open>NOT_USED\<close>,
  \<open>send(x); reset(); send(y)\<close> raises nothing and a following \<open>wait()\<close> of any fiber
  returns \<open>y\<close> at once. \<open>reset\<close> succeeds exactly on a triggered event; on a fresh one
  it raises its AssertionError and leaves the event as it was.
\<close>

theorem send_reset_send_wait:
  "(result ev = NOT_USED \<and> x \<noteq> Sentinel \<and> y \<noteq> Sentinel \<longrightarrow>
      (case send c1 x None (h, ev) of (r1, h1, e1) \<Rightarrow>
       case reset now e1 of (r2, e2) \<Rightarrow>
       case send c2 y None (h1, e2) of (r3, h3, e3) \<Rightarrow>
         r1 = Inr () \<and> r2 = Inr () \<and> r3 = Inr () \<and> wait c3 e3 = (Done (Inr y), e3)))
   \<and> fst (event_init t) = Inr () \<and> result (snd (event_init t)) = NOT_USED
   \<and> (fst (reset now e) = Inr () \<longleftrightarrow> result e \<noteq> NOT_USED)
   \<and> (result e = NOT_USED \<longrightarrow>
        reset now e = (Inl (Exn AssertionError ''Trying to re-reset() a fresh event.''), e))"
  by (simp add: send_def reset_def wait_def event_init_def stored_def Let_def)

theorem send_reset_send_wait_witness:
  "result (snd (event_init 0)) = NOT_USED \<and> PyInt 1 \<noteq> Sentinel \<and> PyInt 2 \<noteq> Sentinel
   \<and> (case send 1 (PyInt 1) None (\<lparr>greenlet = 0, timers = [], listeners = []\<rparr>, snd (event_init 0))
        of (r1, h1, e1) \<Rightarrow>
       case reset 5 e1 of (r2, e2) \<Rightarrow>
       case send 1 (PyInt 2) None (h1, e2) of (r3, h3, e3) \<Rightarrow>
         r1 = Inr () \<and> r2 = Inr () \<and> r3 = Inr () \<and> wait 1 e3 = (Done (Inr (PyInt 2)), e3))
   \<and> reset 5 (snd (event_init 0)) =
       (Inl (Exn AssertionError ''Trying to re-reset() a fresh event.''), snd (event_init 0))"
  using send_reset_send_wait [where ev = "snd (event_init 0)" and ?c1.0 = 1 and x = "PyInt 1"
      and h = "\<lparr>greenlet = 0, timers = [], listeners = []\<rparr>" and now = 5 and ?c2.0 = 1
      and y = "PyInt 2" and ?c3.0 = 1 and t = 0 and e = "snd (event_init 0)"]
  by simp

text \<open>
  The claim as written fails for the sentinel. On a new event \<open>send(NOT_USED)\<close> raises
  nothing and leaves \<open>_result is NOT_USED\<close> true: the \<open>reset()\<close> that follows raises its
  AssertionError, and a \<open>wait()\<close> after sending the sentinel suspends the caller instead of
  returning the value sent.
\<close>

theorem send_sentinel_counterexample:
  "send 1 Sentinel None (\<lparr>greenlet = 0, timers = [], listeners = []\<rparr>, snd (event_init 0)) =
     (Inr (), \<lparr>greenlet = 0, timers = [], listeners = []\<rparr>,
      \<lparr>result = NOT_USED, exc = Bound None, waiters = [], epoch = 0\<rparr>)
   \<and> fst (reset 5 \<lparr>result = NOT_USED, exc = Bound None, waiters = [], epoch = 0\<rparr>) =
       Inl (Exn AssertionError ''Trying to re-reset() a fresh event.'')
   \<and> fst (wait 2 \<lparr>result = NOT_USED, exc = Bound None, waiters = [], epoch = 0\<rparr>) = Switched"
  by (simp add: send_def reset_def wait_def event_init_def stored_def Let_def)

section \<open>Trampoline: what is left in the hub\<close>

lemma pending_timer_cancel: "\<not> pending (timer_cancel t h) t"
  by (auto simp: timer_cancel_def pending_def)

lemma listeners_timer_cancel: "listeners (timer_cancel t h) = listeners h"
  by (simp add: timer_cancel_def)

lemma hub_remove_gone: "l \<notin> set (listeners (hub_remove l h))"
  by (simp add: hub_remove_def same_slot_def)

lemma hub_add_free:
  "\<not> list_ex (same_slot ev n) (listeners h) \<Longrightarrow>
     hub_add ev n c h =
       (Inr \<lparr>l_evtype = ev, l_fileno = n, l_cb = c\<rparr>,
        h\<lparr>listeners := listeners h @ [\<lparr>l_evtype = ev, l_fileno = n, l_cb = c\<rparr>]\<rparr>)"
  by (simp add: hub_add_def Let_def)

lemma schedule_call_global_facts:
  "schedule_call_global s c h = (n, h1) \<Longrightarrow>
     n = length (timers h) \<and> listeners h1 = listeners h \<and> greenlet h1 = greenlet h"
  by (auto simp: schedule_call_global_def add_timer_def)

lemma suspended_hub_facts:
  "installed_listener current fd read \<in> set (listeners (suspended_hub current fd read timeout x h))"
  "timeout \<noteq> None \<Longrightarrow> pending (suspended_hub current fd read timeout x h) (length (timers h))"
  by (auto simp: suspended_hub_def schedule_call_global_def add_timer_def pending_def
      split: option.splits)

lemma trampoline_timer:
  assumes "trampoline hub_switch current fd read write (Some s) timeout_exc hub0 = (r, h')"
    and "greenlet hub0 \<noteq> current"
    and "\<not> (read \<and> write)"
  shows "\<not> pending h' (length (timers hub0))"
  using assms
  by (auto simp: trampoline_def Let_def pending_timer_cancel
      split: prod.splits dest!: schedule_call_global_facts)

lemma trampoline_one_direction:
  assumes nothub: "greenlet hub0 \<noteq> current"
    and dir: "read \<noteq> write"
    and free: "\<not> list_ex (same_slot (if read then READ else WRITE) (fileno_of fd)) (listeners hub0)"
    and sw: "hub_switch (suspended_hub current fd read timeout timeout_exc hub0) = (r, h3)"
  shows "trampoline hub_switch current fd read write timeout timeout_exc hub0 =
          (r, (case timeout of None \<Rightarrow> id | Some s \<Rightarrow> timer_cancel (length (timers hub0)))
                (hub_remove (installed_listener current fd read) h3))"
proof (cases timeout)
  case None
  with assms show ?thesis
    by (cases read)
      (simp_all add: trampoline_def Let_def hub_add_free suspended_hub_def installed_listener_def)
next
  case (Some s)
  with assms show ?thesis
    by (cases read)
      (simp_all add: trampoline_def Let_def hub_add_free suspended_hub_def installed_listener_def
        schedule_call_global_def add_timer_def)
qed

text \<open>
  C2. Take any call that passes the two assertions, and let the hub do anything while the
  caller is suspended. Whether the caller is then switched to (\<open>r = Inr v\<close>, the normal
  return) or has an exception thrown in (\<open>r = Inl e\<close>, the timer's \<open>timeout_exc\<close>):
  when a timeout was given, the timer scheduled for it is not pending in the hub that
  trampoline leaves; and when one direction was requested and its slot was free, the
  listener that stood installed during the suspension is no longer registered, and
  trampoline returns or raises exactly what was switched or thrown in.
\<close>

theorem trampoline_cleanup:
  assumes run: "trampoline hub_switch current fd read write timeout timeout_exc hub0 = (r, h')"
    and nothub: "greenlet hub0 \<noteq> current"
    and notboth: "\<not> (read \<and> write)"
  shows "(timeout \<noteq> None \<longrightarrow> \<not> pending h' (length (timers hub0)))
     \<and> ((read \<or> write)
          \<and> \<not> list_ex (same_slot (if read then READ else WRITE) (fileno_of fd)) (listeners hub0) \<longrightarrow>
          installed_listener current fd read
            \<in> set (listeners (suspended_hub current fd read timeout timeout_exc hub0))
          \<and> (timeout \<noteq> None \<longrightarrow>
               pending (suspended_hub current fd read timeout timeout_exc hub0) (length (timers hub0)))
          \<and> r = fst (hub_switch (suspended_hub current fd read timeout timeout_exc hub0))
          \<and> installed_listener current fd read \<notin> set (listeners h'))"
proof (intro conjI impI)
  assume "timeout \<noteq> None"
  then obtain s where "timeout = Some s" by auto
  with run nothub notboth show "\<not> pending h' (length (timers hub0))"
    using trampoline_timer by blast
next
  assume a: "(read \<or> write)
     \<and> \<not> list_ex (same_slot (if read then READ else WRITE) (fileno_of fd)) (listeners hub0)"
  with notboth have dir: "read \<noteq> write" by auto
  obtain r3 h3 where
    sw: "hub_switch (suspended_hub current fd read timeout timeout_exc hub0) = (r3, h3)"
    by (cases "hub_switch (suspended_hub current fd read timeout timeout_exc hub0)")
  have "trampoline hub_switch current fd read write timeout timeout_exc hub0 =
          (r3, (case timeout of None \<Rightarrow> id | Some s \<Rightarrow> timer_cancel (length (timers hub0)))
                (hub_remove (installed_listener current fd read) h3))"
    using nothub dir a sw by (intro trampoline_one_direction) simp_all
  with run
  have r: "r = r3"
    and h': "h' = (case timeout of None \<Rightarrow> id | Some s \<Rightarrow> timer_cancel (length (timers hub0)))
                    (hub_remove (installed_listener current fd read) h3)"
    by simp_all
  show "installed_listener current fd read
          \<in> set (listeners (suspended_hub current fd read timeout timeout_exc hub0))"
    by (rule suspended_hub_facts)
  show "r = fst (hub_switch (suspended_hub current fd read timeout timeout_exc hub0))"
    by (simp add: r sw)
  show "installed_listener current fd read \<notin> set (listeners h')"
    by (cases timeout) (simp_all add: h' hub_remove_gone listeners_timer_cancel)
  {
    assume "timeout \<noteq> None"
    then show "pending (suspended_hub current fd read timeout timeout_exc hub0) (length (timers hub0))"
      by (rule suspended_hub_facts)
  }
qed

theorem trampoline_cleanup_witness:
  "trampoline (\<lambda>h. (Inl (throw_value (PyClass (UserClass ''Timeout'' BaseException))), h))
      1 (Descriptor 3) True False (Some 2) (PyClass (UserClass ''Timeout'' BaseException))
      \<lparr>greenlet = 0, timers = [], listeners = []\<rparr>
    = (Inl (Exn (UserClass ''Timeout'' BaseException) ''''),
       \<lparr>greenlet = 0,
        timers = [\<lparr>seconds = 2, cb = Throw 1 (PyClass (UserClass ''Timeout'' BaseException)),
                   bound = None, cancelled = True, fired = False\<rparr>],
        listeners = []\<rparr>)
   \<and> greenlet \<lparr>greenlet = 0, timers = [], listeners = []\<rparr> \<noteq> 1
   \<and> \<not> pending \<lparr>greenlet = 0,
        timers = [\<lparr>seconds = 2, cb = Throw 1 (PyClass (UserClass ''Timeout'' BaseException)),
                   bound = None, cancelled = True, fired = False\<rparr>],
        listeners = []\<rparr> 0
   \<and> pending (suspended_hub 1 (Descriptor 3) True (Some 2)
                (PyClass (UserClass ''Timeout'' BaseException))
                \<lparr>greenlet = 0, timers = [], listeners = []\<rparr>) 0
   \<and> installed_listener 1 (Descriptor 3) True
        \<in> set (listeners (suspended_hub 1 (Descriptor 3) True (Some 2)
                (PyClass (UserClass ''Timeout'' BaseException))
                \<lparr>greenlet = 0, timers = [], listeners = []\<rparr>))"
proof -
  have run: "trampoline (\<lambda>h. (Inl (throw_value (PyClass (UserClass ''Timeout'' BaseException))), h))
      1 (Descriptor 3) True False (Some 2) (PyClass (UserClass ''Timeout'' BaseException))
      \<lparr>greenlet = 0, timers = [], listeners = []\<rparr>
    = (Inl (Exn (UserClass ''Timeout'' BaseException) ''''),
       \<lparr>greenlet = 0,
        timers = [\<lparr>seconds = 2, cb = Throw 1 (PyClass (UserClass ''Timeout'' BaseException)),
                   bound = None, cancelled = True, fired = False\<rparr>],
        listeners = []\<rparr>)"
    by (simp add: trampoline_def hub_add_def hub_remove_def same_slot_def fileno_of_def
        schedule_call_global_def add_timer_def timer_cancel_def pending_def throw_value_def Let_def)
  have nothub: "greenlet \<lparr>greenlet = 0, timers = [], listeners = []\<rparr> \<noteq> 1" by simp
  from trampoline_cleanup [OF run nothub] run nothub show ?thesis by simp
qed

section \<open>Who may call trampoline and wait\<close>

text \<open>
  C3, as the code has it. \<open>trampoline\<close> asserts first that the caller is not the hub's
  own fiber, then that reading and writing are not both requested; either failure is an
  AssertionError raised before the hub is touched. \<open>event.wait\<close> has no assertion: what it
  does is the same for every caller, the hub's fiber included. On a triggered event it
  returns the stored value or raises the stored exception, on a fresh one it records the
  caller and switches to the hub.
\<close>

theorem trampoline_asserts:
  "(greenlet hub0 = current \<longrightarrow>
      trampoline hub_switch current fd read write timeout timeout_exc hub0 =
        (Inl (Exn AssertionError ''do not call blocking functions from the mainloop''), hub0))
   \<and> (greenlet hub0 \<noteq> current \<and> read \<and> write \<longrightarrow>
      trampoline hub_switch current fd read write timeout timeout_exc hub0 =
        (Inl (Exn AssertionError ''not allowed to trampoline for reading and writing''), hub0))
   \<and> (result ev = Value v \<and> exc ev = Bound None \<longrightarrow>
        wait (greenlet hub0) ev = (Done (Inr v), ev) \<and> wait current ev = (Done (Inr v), ev))
   \<and> (result ev = Value v \<and> exc ev = Bound (Some e) \<longrightarrow>
        wait (greenlet hub0) ev = (Done (Inl e), ev) \<and> wait current ev = (Done (Inl e), ev))
   \<and> (result ev = NOT_USED \<longrightarrow>
        wait (greenlet hub0) ev = (Switched, ev\<lparr>waiters := dict_set (greenlet hub0) (waiters ev)\<rparr>))"
  by (simp add: trampoline_def wait_def)

theorem trampoline_asserts_witness:
  "trampoline (\<lambda>h. (Inr PyNone, h)) 0 (Descriptor 3) True False None PyNone
      \<lparr>greenlet = 0, timers = [], listeners = []\<rparr> =
     (Inl (Exn AssertionError ''do not call blocking functions from the mainloop''),
      \<lparr>greenlet = 0, timers = [], listeners = []\<rparr>)
   \<and> trampoline (\<lambda>h. (Inr PyNone, h)) 1 (Descriptor 3) True True None PyNone
      \<lparr>greenlet = 0, timers = [], listeners = []\<rparr> =
     (Inl (Exn AssertionError ''not allowed to trampoline for reading and writing''),
      \<lparr>greenlet = 0, timers = [], listeners = []\<rparr>)
   \<and> wait 0 \<lparr>result = Value (PyInt 4), exc = Bound None, waiters = [], epoch = 0\<rparr> =
     (Done (Inr (PyInt 4)), \<lparr>result = Value (PyInt 4), exc = Bound None, waiters = [], epoch = 0\<rparr>)"
  using trampoline_asserts [of "\<lparr>greenlet = 0, timers = [], listeners = []\<rparr>" 0
      "\<lambda>h. (Inr PyNone, h)" "Descriptor 3" True False None PyNone
      "\<lparr>result = Value (PyInt 4), exc = Bound None, waiters = [], epoch = 0\<rparr>" "PyInt 4"]
    trampoline_asserts [of "\<lparr>greenlet = 0, timers = [], listeners = []\<rparr>" 1
      "\<lambda>h. (Inr PyNone, h)" "Descriptor 3" True True None PyNone]
  by simp

text \<open>
  The claim as written fails for \<open>event.wait\<close>: called by the hub's own fiber (fiber 0
  of this hub) on a triggered event it returns the value, and no error is raised.
\<close>

theorem wait_from_hub_fiber_counterexample:
  "fst (wait (greenlet \<lparr>greenlet = 0, timers = [], listeners = []\<rparr>)
          \<lparr>result = Value (PyInt 4), exc = Bound None, waiters = [], epoch = 0\<rparr>)
     = Done (Inr (PyInt 4))"
  by (simp add: wait_def)

section \<open>Event: what a waiter already blocked receives\<close>

lemma send_schedule_fold:
  "foldl (\<lambda>h' waiter. snd (schedule_call current 0 (GreenlibSwitch waiter r None) h')) h ws =
     h\<lparr>timers := timers h @
          map (\<lambda>w. \<lparr>seconds = 0, cb = GreenlibSwitch w r None, bound = Some current,
                     cancelled = False, fired = False\<rparr>) ws\<rparr>"
  by (induction ws arbitrary: h) (simp_all add: schedule_call_def add_timer_def)

lemma send_fresh:
  "result ev = NOT_USED \<Longrightarrow>
     send current r x (h, ev) =
       (Inr (),
        h\<lparr>timers := timers h @
             map (\<lambda>w. \<lparr>seconds = 0, cb = GreenlibSwitch w r None, bound = Some current,
                        cancelled = False, fired = False\<rparr>) (waiters ev)\<rparr>,
        ev\<lparr>result := stored r, exc := Bound x\<rparr>)"
  by (simp add: send_def Let_def send_schedule_fold)

lemma send_resumes_with_value:
  assumes "result ev = NOT_USED" and "send current r x (h, ev) = (out, h', ev')"
    and "t \<in> set (drop (length (timers h)) (timers h'))"
  shows "\<exists>w \<in> set (waiters ev). resume_of (cb t) = (w, Inr r)"
  using assms by (auto simp: send_fresh resume_of_def greenlib_switch_def)

text \<open>
  C1 at a concrete run. Fiber 1 calls \<open>wait()\<close> on a new event and is suspended; fiber 2
  calls \<open>send(exc=ZeroDivisionError('boom'))\<close>. The one call that \<open>send\<close> schedules is
  \<open>greenlib.switch(fiber 1, None)\<close>, so the \<open>wait()\<close> of fiber 1 returns None; a
  \<open>wait()\<close> made afterwards, by fiber 3, raises the stored exception.
\<close>

theorem send_exc_blocked_waiter_returns_none:
  "wait 1 (snd (event_init 0)) =
     (Switched, \<lparr>result = NOT_USED, exc = Missing, waiters = [1], epoch = 0\<rparr>)
   \<and> send 2 PyNone (Some (Exn ZeroDivisionError ''boom''))
        (\<lparr>greenlet = 0, timers = [], listeners = []\<rparr>,
         \<lparr>result = NOT_USED, exc = Missing, waiters = [1], epoch = 0\<rparr>) =
     (Inr (),
      \<lparr>greenlet = 0,
       timers = [\<lparr>seconds = 0, cb = GreenlibSwitch 1 PyNone None, bound = Some 2,
                  cancelled = False, fired = False\<rparr>],
       listeners = []\<rparr>,
      \<lparr>result = Value PyNone, exc = Bound (Some (Exn ZeroDivisionError ''boom'')),
       waiters = [1], epoch = 0\<rparr>)
   \<and> resume_of (GreenlibSwitch 1 PyNone None) = (1, Inr PyNone)
   \<and> fst (wait 3 \<lparr>result = Value PyNone, exc = Bound (Some (Exn ZeroDivisionError ''boom'')),
                    waiters = [1], epoch = 0\<rparr>) =
       Done (Inl (Exn ZeroDivisionError ''boom''))"
  by (simp add: wait_def send_def event_init_def reset_def dict_set_def schedule_call_def
      add_timer_def resume_of_def greenlib_switch_def stored_def Let_def)

section \<open>The default hub\<close>

text \<open>
  C9, as the code has it. With no argument and no \<open>EVENTLET_HUB\<close>, \<open>use_hub\<close> installs
  the hub of \<open>get_default_hub()\<close> and forgets the hub instance of the thread; the default
  is twistedr when the twisted reactor is already loaded, and only otherwise epoll if it
  can be imported, else poll if \<open>select\<close> has it, else select.
\<close>

theorem default_hub_selection:
  "EVENTLET_HUB env = None \<longrightarrow>
     use_hub env ModNone tls =
       (Inr (), tls\<lparr>tl_hub := None, tl_Hub := Some (hub_attr env (get_default_hub env))\<rparr>)
     \<and> (twisted_reactor_loaded env \<longrightarrow> get_default_hub env = twistedr)
     \<and> (\<not> twisted_reactor_loaded env \<and> epolls_importable env \<longrightarrow> get_default_hub env = epolls)
     \<and> (\<not> twisted_reactor_loaded env \<and> \<not> epolls_importable env \<and> select_has_poll env \<longrightarrow>
          get_default_hub env = poll)
     \<and> (\<not> twisted_reactor_loaded env \<and> \<not> epolls_importable env \<and> \<not> select_has_poll env \<longrightarrow>
          get_default_hub env = selects)"
  by (simp add: use_hub_def get_default_hub_def Let_def)

theorem default_hub_selection_witness:
  "EVENTLET_HUB \<lparr>twisted_reactor_loaded = False, epolls_importable = False, select_has_poll = True,
      EVENTLET_HUB = None, importable = (\<lambda>s. True), has_Hub = (\<lambda>m. True)\<rparr> = None
   \<and> use_hub \<lparr>twisted_reactor_loaded = False, epolls_importable = False, select_has_poll = True,
      EVENTLET_HUB = None, importable = (\<lambda>s. True), has_Hub = (\<lambda>m. True)\<rparr> ModNone
      \<lparr>tl_hub = Some (HubOf selects), tl_Hub = Some (HubOf selects)\<rparr>
     = (Inr (), \<lparr>tl_hub = None, tl_Hub = Some (HubOf poll)\<rparr>)"
  using default_hub_selection [of "\<lparr>twisted_reactor_loaded = False, epolls_importable = False,
      select_has_poll = True, EVENTLET_HUB = None, importable = (\<lambda>s. True), has_Hub = (\<lambda>m. True)\<rparr>"
      "\<lparr>tl_hub = Some (HubOf selects), tl_Hub = Some (HubOf selects)\<rparr>"]
  by (simp add: hub_attr_def)

text \<open>
  The claim as written fails when the twisted reactor is loaded: epoll is available, yet
  the default is twistedr.
\<close>

theorem default_hub_twisted_counterexample:
  "epolls_importable twisted_with_epoll
   \<and> EVENTLET_HUB twisted_with_epoll = None
   \<and> get_default_hub twisted_with_epoll = twistedr
   \<and> snd (use_hub twisted_with_epoll ModNone \<lparr>tl_hub = None, tl_Hub = None\<rparr>)
       = \<lparr>tl_hub = None, tl_Hub = Some (HubOf twistedr)\<rparr>
   \<and> HubOf twistedr \<noteq> HubOf epolls"
  by (simp add: use_hub_def get_default_hub_def hub_attr_def twisted_with_epoll_def Let_def)

section \<open>tpool: one response for each request\<close>

lemma drain_append: "drain q sent = sent @ q"
  by (induction q arbitrary: sent) auto

lemma tworker_sentinel: "reqq st = None # q \<Longrightarrow> tworker call st = (Returned, st\<lparr>reqq := q\<rparr>)"
  by (subst tworker.simps) simp

lemma tworker_empty: "reqq st = [] \<Longrightarrow> tworker call st = (In_get, st)"
  by (subst tworker.simps) simp

lemma tworker_reraise:
  "reqq st = Some (e, meth, args, kwargs) # q \<Longrightarrow> call meth args kwargs = Inl x \<Longrightarrow> SYS_EXCS x \<Longrightarrow>
     tworker call st = (Died x, st\<lparr>reqq := q\<rparr>)"
  by (subst tworker.simps) simp

lemma response_event: "fst (response call rq) = fst rq"
  by (cases rq) (simp add: response_def)

lemma tworker_ordinary:
  "\<forall>rq \<in> set rqs. ordinary call rq \<Longrightarrow> reqq st = map Some rqs @ q \<Longrightarrow>
   tworker call st =
   tworker call (st\<lparr>reqq := q, rspq := rspq st @ map (response call) rqs,
                     wake_bytes := wake_bytes st + length rqs\<rparr>)"
proof (induction rqs arbitrary: st)
  case Nil
  then have "st\<lparr>reqq := q, rspq := rspq st, wake_bytes := wake_bytes st\<rparr> = st"
    by simp
  then show ?case by simp
next
  case (Cons rq rqs)
  obtain e meth args kwargs where rq: "rq = (e, meth, args, kwargs)" by (cases rq)
  from Cons.prems have ord: "ordinary call rq" and rest: "\<forall>rq \<in> set rqs. ordinary call rq"
    by simp_all
  let ?st1 = "signal_t2e (st\<lparr>reqq := map Some rqs @ q, rspq := rspq st @ [response call rq]\<rparr>)"
  have step: "tworker call st = tworker call ?st1"
    using ord Cons.prems(2)
    by (subst tworker.simps)
      (auto simp: rq ordinary_def response_def split: sum.splits)
  have "reqq ?st1 = map Some rqs @ q" by (simp add: signal_t2e_def)
  from Cons.IH [OF rest this] show ?case
    unfolding step by (simp add: signal_t2e_def)
qed

text \<open>
  C8, as the code has it. A worker thread returns from its loop on the None sentinel. When
  the callable raises KeyboardInterrupt or SystemExit the worker re-raises it: the thread
  ends with no response pushed and no byte written. For requests whose callable returns, or
  raises an Exception outside \<open>SYS_EXCS\<close>, the worker pushes exactly one response each,
  (the request's event, the value or the exception info), in order, and writes one byte
  each. The bridge fiber, on reading a byte, sends every queued response to its event
  once. So a batch of such requests followed by the sentinel gives exactly one send on
  each request's event.
\<close>

theorem tworker_one_response_each:
  "tworker call (st\<lparr>reqq := None # q\<rparr>) = (Returned, st\<lparr>reqq := q\<rparr>)
   \<and> (call meth args kwargs = Inl x \<and> SYS_EXCS x \<longrightarrow>
        tworker call (st\<lparr>reqq := Some (e, meth, args, kwargs) # q\<rparr>) = (Died x, st\<lparr>reqq := q\<rparr>))
   \<and> ((\<forall>rq \<in> set rqs. ordinary call rq) \<longrightarrow>
        tworker call (st\<lparr>reqq := map Some rqs @ q\<rparr>) =
        tworker call (st\<lparr>reqq := q, rspq := rspq st @ map (response call) rqs,
                          wake_bytes := wake_bytes st + length rqs\<rparr>))
   \<and> tpool_trampoline [One_byte] st =
        (In_get, st\<lparr>wake_bytes := wake_bytes st - 1, sends := sends st @ rspq st, rspq := []\<rparr>)
   \<and> ((\<forall>rq \<in> set rqs. ordinary call rq) \<and> rspq st = [] \<longrightarrow>
        (case tworker call (st\<lparr>reqq := map Some rqs @ [None]\<rparr>) of (w, st1) \<Rightarrow>
           w = Returned \<and> wake_bytes st1 = wake_bytes st + length rqs \<and>
           (case tpool_trampoline [One_byte] st1 of (b, st2) \<Rightarrow>
              sends st2 = sends st @ map (response call) rqs
              \<and> map fst (drop (length (sends st)) (sends st2)) = map fst rqs)))"
proof (intro conjI impI)
  show "tworker call (st\<lparr>reqq := None # q\<rparr>) = (Returned, st\<lparr>reqq := q\<rparr>)"
    by (simp add: tworker_sentinel)
next
  assume "call meth args kwargs = Inl x \<and> SYS_EXCS x"
  then show "tworker call (st\<lparr>reqq := Some (e, meth, args, kwargs) # q\<rparr>) = (Died x, st\<lparr>reqq := q\<rparr>)"
    by (simp add: tworker_reraise)
next
  assume "\<forall>rq \<in> set rqs. ordinary call rq"
  from tworker_ordinary [OF this, of "st\<lparr>reqq := map Some rqs @ q\<rparr>" q]
  show "tworker call (st\<lparr>reqq := map Some rqs @ q\<rparr>) =
        tworker call (st\<lparr>reqq := q, rspq := rspq st @ map (response call) rqs,
                          wake_bytes := wake_bytes st + length rqs\<rparr>)"
    by simp
next
  show "tpool_trampoline [One_byte] st =
        (In_get, st\<lparr>wake_bytes := wake_bytes st - 1, sends := sends st @ rspq st, rspq := []\<rparr>)"
    by (simp add: drain_append)
next
  assume a: "(\<forall>rq \<in> set rqs. ordinary call rq) \<and> rspq st = []"
  from a tworker_ordinary [of rqs call "st\<lparr>reqq := map Some rqs @ [None]\<rparr>" "[None]"]
  have "tworker call (st\<lparr>reqq := map Some rqs @ [None]\<rparr>) =
        (Returned, st\<lparr>reqq := [], rspq := map (response call) rqs,
                       wake_bytes := wake_bytes st + length rqs\<rparr>)"
    by (simp add: tworker_sentinel)
  then show "case tworker call (st\<lparr>reqq := map Some rqs @ [None]\<rparr>) of (w, st1) \<Rightarrow>
           w = Returned \<and> wake_bytes st1 = wake_bytes st + length rqs \<and>
           (case tpool_trampoline [One_byte] st1 of (b, st2) \<Rightarrow>
              sends st2 = sends st @ map (response call) rqs
              \<and> map fst (drop (length (sends st)) (sends st2)) = map fst rqs)"
    by (simp add: drain_append response_event)
qed

theorem tworker_one_response_each_witness:
  "ordinary (\<lambda>m a k. if m = PyFunc 0 then Inr (PyInt 42) else Inl (Exn ZeroDivisionError ''''))
      (0, PyFunc 0, PyTuple [], PyTuple [])
   \<and> ordinary (\<lambda>m a k. if m = PyFunc 0 then Inr (PyInt 42) else Inl (Exn ZeroDivisionError ''''))
      (1, PyFunc 1, PyTuple [], PyTuple [])
   \<and> (case tworker (\<lambda>m a k. if m = PyFunc 0 then Inr (PyInt 42) else Inl (Exn ZeroDivisionError ''''))
          \<lparr>setup_already = True,
           reqq = [Some (0, PyFunc 0, PyTuple [], PyTuple []),
                   Some (1, PyFunc 1, PyTuple [], PyTuple []), None],
           rspq = [], wake_bytes = 0, sends = [], events = 2\<rparr> of (w, st1) \<Rightarrow>
        w = Returned \<and> wake_bytes st1 = 2 \<and>
        sends (snd (tpool_trampoline [One_byte] st1)) =
          [(0, PyInt 42),
           (1, PyTuple [PyClass ZeroDivisionError, PyExc (Exn ZeroDivisionError ''''), PyTraceback])])
   \<and> SYS_EXCS (Exn SystemExit '''')
   \<and> tworker exiting_callable
        \<lparr>setup_already = True, reqq = [Some (0, PyFunc 0, PyTuple [], PyTuple [])],
         rspq = [], wake_bytes = 0, sends = [], events = 1\<rparr> =
      (Died (Exn SystemExit ''''),
       \<lparr>setup_already = True, reqq = [], rspq = [], wake_bytes = 0, sends = [], events = 1\<rparr>)"
  using tworker_one_response_each [where
      call = "\<lambda>m a k. if m = PyFunc 0 then Inr (PyInt 42) else Inl (Exn ZeroDivisionError '''')"
      and st = "\<lparr>setup_already = True, reqq = [], rspq = [], wake_bytes = 0, sends = [], events = 2\<rparr>"
      and q = "[]" and meth = "PyFunc 0" and args = "PyTuple []" and kwargs = "PyTuple []"
      and x = "Exn SystemExit ''''" and e = 0
      and rqs = "[(0, PyFunc 0, PyTuple [], PyTuple []), (1, PyFunc 1, PyTuple [], PyTuple [])]"]
    tworker_one_response_each [where call = exiting_callable
      and st = "\<lparr>setup_already = True, reqq = [], rspq = [], wake_bytes = 0, sends = [], events = 1\<rparr>"
      and q = "[]" and meth = "PyFunc 0" and args = "PyTuple []" and kwargs = "PyTuple []"
      and x = "Exn SystemExit ''''" and e = 0 and rqs = "[]"]
  by (simp add: ordinary_def response_def exc_info_def SYS_EXCS_def isinstance_def issubclass_def
      exiting_callable_def split: prod.splits)

text \<open>
  The claim as written fails when the callable raises SystemExit: the request is not the
  sentinel, yet the worker leaves its loop, and it has pushed no response and written no
  byte, so no send is ever made on the request's event.
\<close>

theorem tworker_system_exit_counterexample:
  "tworker exiting_callable
     \<lparr>setup_already = True, reqq = [Some (0, PyFunc 0, PyTuple [], PyTuple []), None],
      rspq = [], wake_bytes = 0, sends = [], events = 1\<rparr> =
   (Died (Exn SystemExit ''''),
    \<lparr>setup_already = True, reqq = [None], rspq = [], wake_bytes = 0, sends = [], events = 1\<rparr>)"
  by (subst tworker.simps)
    (simp add: exiting_callable_def SYS_EXCS_def isinstance_def issubclass_def)

section \<open>tpool: a returned tuple that looks like exception info\<close>

lemma isinstance_own_class: "isinstance x (cls x)"
  by (cases "cls x") (simp_all add: isinstance_def issubclass_def)

text \<open>
  C10. When the callable returns a 3-tuple whose second element is an instance of
  Exception, \<open>execute\<close> does not return the tuple: \<open>erecv\<close> takes it for the exception
  info of a failure and raises from it. For a tuple shaped like \<open>sys.exc_info()\<close> the
  exception raised in the caller is the tuple's second element.
\<close>

theorem execute_reraises_returned_tuple:
  "call meth args kwargs = Inr (PyTuple [c, PyExc x, tb]) \<and> isinstance x Exception \<and> \<not> setup_already st \<longrightarrow>
     fst (tpool_execute call meth args kwargs st) = Done (Inl (raise3 c (PyExc x) tb))
     \<and> fst (tpool_execute call meth args kwargs st) \<noteq> Done (Inr (PyTuple [c, PyExc x, tb]))
     \<and> (c = PyClass (cls x) \<and> (tb = PyNone \<or> tb = PyTraceback) \<longrightarrow>
          fst (tpool_execute call meth args kwargs st) = Done (Inl x))"
proof (intro impI)
  assume a: "call meth args kwargs = Inr (PyTuple [c, PyExc x, tb]) \<and> isinstance x Exception
     \<and> \<not> setup_already st"
  let ?st1 = "\<lparr>setup_already = True, reqq = [Some (0, meth, args, kwargs)], rspq = [], wake_bytes = 0,
                sends = [], events = Suc 0\<rparr>"
  have w: "tworker call ?st1 =
     (In_get, \<lparr>setup_already = True, reqq = [], rspq = [(0, PyTuple [c, PyExc x, tb])], wake_bytes = Suc 0,
                sends = [], events = Suc 0\<rparr>)"
    using a by (subst tworker.simps) (simp add: signal_t2e_def tworker_empty)
  have r: "fst (tpool_execute call meth args kwargs st) = Done (Inl (raise3 c (PyExc x) tb))"
    using a by (simp add: tpool_execute_def tpool_setup_def esend_def w erecv_def event_wait_def
        is_exc_info_def)
  show "fst (tpool_execute call meth args kwargs st) = Done (Inl (raise3 c (PyExc x) tb))
     \<and> fst (tpool_execute call meth args kwargs st) \<noteq> Done (Inr (PyTuple [c, PyExc x, tb]))
     \<and> (c = PyClass (cls x) \<and> (tb = PyNone \<or> tb = PyTraceback) \<longrightarrow>
          fst (tpool_execute call meth args kwargs st) = Done (Inl x))"
    by (auto simp: r raise3_def isinstance_own_class)
qed

theorem execute_reraises_returned_tuple_witness:
  "isinstance (Exn ValueError ''kept for later'') Exception
   \<and> fst (tpool_execute
        (\<lambda>m a k. Inr (PyTuple [PyClass ValueError, PyExc (Exn ValueError ''kept for later''), PyNone]))
        (PyFunc 0) (PyTuple []) (PyTuple [])
        \<lparr>setup_already = False, reqq = [], rspq = [], wake_bytes = 0, sends = [], events = 0\<rparr>)
     = Done (Inl (Exn ValueError ''kept for later''))"
  using execute_reraises_returned_tuple [of
      "\<lambda>m a k. Inr (PyTuple [PyClass ValueError, PyExc (Exn ValueError ''kept for later''), PyNone])"
      "PyFunc 0" "PyTuple []" "PyTuple []" "PyClass ValueError" "Exn ValueError ''kept for later''"
      PyNone
      "\<lparr>setup_already = False, reqq = [], rspq = [], wake_bytes = 0, sends = [], events = 0\<rparr>"]
  by (simp add: isinstance_def issubclass_def raise3_def)

section \<open>Actor: messages are received in order, each at most once\<close>

text \<open>
  Started at the head of its loop, the owner's fiber runs until it is settled again, and
  appends nothing to what was cast.
\<close>

lemma run_forever_settles:
  "at_loop_head a \<Longrightarrow>
     settled (run_forever received now a)
     \<and> enqueued (run_forever received now a) = enqueued a
     \<and> a_fiber (run_forever received now a) = a_fiber a"
proof (induction received now a rule: run_forever.induct)
  case (1 received now a)
  show ?case
  proof (cases "mailbox a = []")
    case True
    show ?thesis
    proof (cases "result (a_event a)")
      case NOT_USED
      with True "1.prems" show ?thesis
        by (subst (1 2 3) run_forever.simps)
          (simp add: wait_def settled_def at_loop_head_def exc_ok_def dict_set_def)
    next
      case (Value v)
      with "1.prems" have ex: "exc (a_event a) = Bound None"
        by (simp add: at_loop_head_def exc_ok_def)
      let ?ev' = "(a_event a)\<lparr>epoch := now, result := NOT_USED, waiters := []\<rparr>"
      have w: "wait (a_fiber a) (a_event a) = (Done (Inr v), a_event a)"
        by (simp add: wait_def Value ex)
      have r: "reset now (a_event a) = (Inr (), ?ev')"
        by (simp add: reset_def Value)
      have head: "at_loop_head (a\<lparr>a_event := ?ev'\<rparr>)"
        using "1.prems" by (simp add: at_loop_head_def exc_ok_def)
      from "1.IH"(1) [OF True w [symmetric] refl refl r [symmetric] refl head]
      show ?thesis
        by (subst (1 2 3) run_forever.simps) (simp add: True w r)
    qed
  next
    case False
    show ?thesis
    proof (cases "received (hd (mailbox a))")
      case Return_now
      have head: "at_loop_head (a\<lparr>calls := calls a @ [hd (mailbox a)], mailbox := tl (mailbox a)\<rparr>)"
        using "1.prems" False by (simp add: at_loop_head_def)
      from "1.IH"(2) [OF False Return_now head]
      show ?thesis
        by (subst (1 2 3) run_forever.simps) (simp add: False Return_now)
    next
      case (Raise_now e)
      with False "1.prems" show ?thesis
        by (subst (1 2 3) run_forever.simps)
          (simp add: settled_def at_loop_head_def in_call_def)
    next
      case Suspend
      with False "1.prems" show ?thesis
        by (subst (1 2 3) run_forever.simps)
          (simp add: settled_def at_loop_head_def in_call_def)
    qed
  qed
qed

lemma filter_fire_first:
  "filter (resumes g) (fire_first g ts) = tl (filter (resumes g) ts)"
  by (induction ts) (auto simp: resumes_def)

lemma wake_calls_fire_first:
  "wake_calls g (h\<lparr>timers := fire_first g (timers h)\<rparr>) = tl (wake_calls g h)"
  by (simp add: wake_calls_def filter_fire_first map_tl)

lemma cast_nonempty:
  "mailbox a \<noteq> [] \<Longrightarrow>
     cast f m a = (Inr (), a\<lparr>mailbox := mailbox a @ [m], enqueued := enqueued a @ [m]\<rparr>)"
  by (cases "mailbox a") (simp_all add: cast_def Let_def)

lemma cast_empty:
  "mailbox a = [] \<Longrightarrow>
     cast f m a =
       (case send f PyNone None (a_hub a, a_event a) of
          (r, h, ev) \<Rightarrow> (r, a\<lparr>mailbox := [m], enqueued := enqueued a @ [m], a_hub := h, a_event := ev\<rparr>))"
  by (simp add: cast_def Let_def)

lemma wake_calls_send:
  "result ev = NOT_USED \<Longrightarrow> send f r x (h, ev) = (out, h', ev') \<Longrightarrow>
     wake_calls g h' = wake_calls g h @ map (\<lambda>w. GreenlibSwitch w r None) (filter (\<lambda>w. w = g) (waiters ev))"
  by (auto simp: send_fresh wake_calls_def resumes_def resume_of_def filter_map comp_def)

lemma cast_settled:
  assumes "settled a"
  shows "fst (cast f m a) = Inr () \<and> settled (snd (cast f m a))
     \<and> enqueued (snd (cast f m a)) = enqueued a @ [m]
     \<and> a_fiber (snd (cast f m a)) = a_fiber a"
proof (cases "mailbox a = []")
  case False
  with assms show ?thesis
    by (cases "a_at a")
      (auto simp: cast_nonempty settled_def at_loop_head_def in_call_def)
next
  case True
  with assms have fresh: "result (a_event a) = NOT_USED"
    and at: "a_at a = Not_started \<or> a_at a = In_wait"
    by (cases "a_at a"; simp add: settled_def in_call_def split: if_splits)+
  obtain h' ev' where s: "send f PyNone None (a_hub a, a_event a) = (Inr (), h', ev')"
    and ev': "ev' = (a_event a)\<lparr>result := Value PyNone, exc := Bound None\<rparr>"
    using send_fresh [OF fresh, of f PyNone] by (simp add: stored_def)
  note wk = wake_calls_send [OF fresh s, of "a_fiber a"]
  from at show ?thesis
  proof
    assume "a_at a = Not_started"
    with assms True fresh wk show ?thesis
      by (simp add: cast_empty s ev' settled_def at_loop_head_def exc_ok_def)
  next
    assume "a_at a = In_wait"
    with assms True fresh wk show ?thesis
      by (simp add: cast_empty s ev' settled_def exc_ok_def)
  qed
qed

lemma cast_messages_Cons: "cast_messages (act # acts) = cast_messages [act] @ cast_messages acts"
  by (simp add: cast_messages_def)

lemma in_call_unreceived:
  assumes "in_call a"
  shows "calls a @ tl (mailbox a) = enqueued a"
proof -
  from assms obtain m ms where mb: "mailbox a = m # ms"
    by (cases "mailbox a") (simp_all add: in_call_def)
  from assms mb have "butlast (calls a) @ [m] = calls a"
    by (simp add: in_call_def) (metis append_butlast_last_id)
  then have "calls a @ ms = butlast (calls a) @ m # ms"
    by (metis append.assoc append_Cons append_Nil)
  with assms mb show ?thesis by (simp add: in_call_def)
qed

lemma settled_unreceived:
  "settled a \<Longrightarrow> calls a @ unreceived a = enqueued a \<and> depth a \<le> 1"
  by (cases "a_at a")
    (auto simp: settled_def unreceived_def at_loop_head_def in_call_unreceived)

lemma cast_a_at: "a_at (snd (cast f m a)) = a_at a"
  by (simp add: cast_def Let_def split: prod.splits)

text \<open>
  The two ways the owner's fiber comes back to the head of its loop: the hub runs the
  pending call that wakes it from \<open>wait()\<close>, or a suspended call of \<open>received\<close>
  returns.
\<close>

lemma wake_up:
  assumes s: "settled a" and iw: "a_at a = In_wait" and trig: "result (a_event a) \<noteq> NOT_USED"
  shows "\<exists>a1. step received now a Switch_in = run_forever received now a1 \<and> at_loop_head a1
           \<and> enqueued a1 = enqueued a \<and> a_fiber a1 = a_fiber a"
proof -
  from s iw trig
  have wk: "wake_calls (a_fiber a) (a_hub a) = [GreenlibSwitch (a_fiber a) PyNone None]"
    and inv: "calls a @ mailbox a = enqueued a" "depth a = 0" "exc_ok (a_event a)"
    by (simp_all add: settled_def)
  let ?ev' = "(a_event a)\<lparr>epoch := now, result := NOT_USED, waiters := []\<rparr>"
  let ?a1 = "a\<lparr>a_hub := (a_hub a)\<lparr>timers := fire_first (a_fiber a) (timers (a_hub a))\<rparr>,
               a_event := ?ev'\<rparr>"
  have r: "reset now (a_event a) = (Inr (), ?ev')"
    using trig by (simp add: reset_def)
  have "at_loop_head ?a1"
    using inv wk by (simp add: at_loop_head_def exc_ok_def wake_calls_fire_first)
  moreover have "step received now a Switch_in = run_forever received now ?a1"
    using iw wk r by (simp add: step_def after_wait_def resume_of_def greenlib_switch_def)
  ultimately show ?thesis by auto
qed

lemma received_returns:
  assumes s: "settled a" and ir: "a_at a = In_received"
  shows "\<exists>a1. step received now a (Finish None) = run_forever received now a1 \<and> at_loop_head a1
           \<and> enqueued a1 = enqueued a \<and> a_fiber a1 = a_fiber a"
proof -
  from s ir have ic: "in_call a" and d: "depth a = 1" and ex: "exc_ok (a_event a)"
    by (simp_all add: settled_def)
  from ic obtain m ms where mb: "mailbox a = m # ms"
    by (cases "mailbox a") (simp_all add: in_call_def)
  let ?a1 = "a\<lparr>depth := depth a - 1, mailbox := ms\<rparr>"
  from in_call_unreceived [OF ic] mb have "calls a @ ms = enqueued a" by simp
  with ic d ex have "at_loop_head ?a1"
    by (simp add: at_loop_head_def in_call_def)
  moreover have "step received now a (Finish None) = run_forever received now ?a1"
    using ir mb by (simp add: step_def after_received_def)
  ultimately show ?thesis by auto
qed

text \<open>
  Every action on a settled actor is a \<open>cast\<close>, changes nothing, brings the owner back
  to the head of its loop, or ends it by an exception raised in \<open>received\<close>.
\<close>

lemma step_shape:
  assumes s: "settled a"
  shows "(\<exists>f m. act = Cast f m \<and> step received now a act = snd (cast f m a))
     \<or> (cast_messages [act] = [] \<and> step received now a act = a
         \<and> (act = Switch_in \<and> a_at a = In_wait \<longrightarrow> result (a_event a) = NOT_USED)
         \<and> (act = Switch_in \<longrightarrow> a_at a \<noteq> Not_started))
     \<or> (cast_messages [act] = []
         \<and> (\<exists>a1. step received now a act = run_forever received now a1 \<and> at_loop_head a1
                \<and> enqueued a1 = enqueued a \<and> a_fiber a1 = a_fiber a))
     \<or> (cast_messages [act] = [] \<and> a_at a = In_received
         \<and> (\<exists>e. step received now a act = a\<lparr>depth := depth a - 1, a_at := Dead e\<rparr>))"
proof (cases act)
  case (Cast f m)
  then show ?thesis by (simp add: step_def)
next
  case Switch_in
  show ?thesis
  proof (cases "a_at a")
    case Not_started
    with s have "at_loop_head a" by (simp add: settled_def)
    with Switch_in Not_started show ?thesis
      by (auto simp: step_def cast_messages_def)
  next
    case In_wait
    show ?thesis
    proof (cases "result (a_event a) = NOT_USED")
      case True
      with s In_wait have "wake_calls (a_fiber a) (a_hub a) = []"
        by (simp add: settled_def)
      with In_wait Switch_in True show ?thesis
        by (simp add: step_def cast_messages_def)
    next
      case False
      from wake_up [OF s In_wait False, of received now] Switch_in show ?thesis
        by (simp add: cast_messages_def)
    qed
  next
    case In_received
    with Switch_in show ?thesis by (simp add: step_def cast_messages_def)
  next
    case (Dead e)
    with Switch_in show ?thesis by (simp add: step_def cast_messages_def)
  qed
next
  case (Finish r)
  show ?thesis
  proof (cases "a_at a = In_received")
    case False
    with Finish show ?thesis
      by (cases "a_at a") (simp_all add: step_def cast_messages_def)
  next
    case True
    show ?thesis
    proof (cases r)
      case None
      from received_returns [OF s True, of received now] Finish None show ?thesis
        by (simp add: cast_messages_def)
    next
      case (Some e)
      with Finish True
      have "step received now a act = a\<lparr>depth := depth a - 1, a_at := Dead e\<rparr>"
        by (simp add: step_def after_received_def)
      with Finish True show ?thesis
        by (auto simp: cast_messages_def)
    qed
  qed
qed

lemma dead_in_received_settled:
  "settled a \<Longrightarrow> a_at a = In_received \<Longrightarrow> settled (a\<lparr>depth := depth a - 1, a_at := Dead e\<rparr>)"
  by (simp add: settled_def in_call_def)

lemma step_settled:
  assumes s: "settled a"
  shows "settled (step received now a act) \<and> a_fiber (step received now a act) = a_fiber a
     \<and> enqueued (step received now a act) = enqueued a @ cast_messages [act]"
  using step_shape [OF s, of act received now]
proof (elim disjE exE conjE)
  fix f m
  assume "act = Cast f m" and "step received now a act = snd (cast f m a)"
  with cast_settled [OF s, of f m] show ?thesis
    by (simp add: cast_messages_def)
next
  assume "cast_messages [act] = []" and "step received now a act = a"
  with s show ?thesis by simp
next
  fix a1
  assume "cast_messages [act] = []" and "step received now a act = run_forever received now a1"
    and "at_loop_head a1" and "enqueued a1 = enqueued a" and "a_fiber a1 = a_fiber a"
  with run_forever_settles [of a1 received now] show ?thesis by simp
next
  fix e
  assume "cast_messages [act] = []" and "a_at a = In_received"
    and "step received now a act = a\<lparr>depth := depth a - 1, a_at := Dead e\<rparr>"
  with dead_in_received_settled [OF s] show ?thesis by simp
qed

lemma run_actions_settled:
  "settled a \<Longrightarrow>
     settled (run_actions received now acts a)
     \<and> a_fiber (run_actions received now acts a) = a_fiber a
     \<and> enqueued (run_actions received now acts a) = enqueued a @ cast_messages acts"
proof (induction acts arbitrary: a)
  case Nil
  then show ?case by (simp add: run_actions_def cast_messages_def)
next
  case (Cons act acts)
  note st = step_settled [OF Cons.prems, of received now act]
  from st have s: "settled (step received now a act)" by simp
  from Cons.IH [OF s] st show ?case
    by (simp add: run_actions_def cast_messages_Cons [of act acts])
qed

lemma Actor_init_settled:
  "wake_calls g h = [] \<Longrightarrow> settled (Actor_init now g h)"
  by (simp add: Actor_init_def settled_def at_loop_head_def exc_ok_def event_init_def reset_def)

lemma run_forever_drains:
  "\<forall>m. received m = Return_now \<Longrightarrow> at_loop_head a \<Longrightarrow>
     a_at (run_forever received now a) = In_wait
     \<and> mailbox (run_forever received now a) = []
     \<and> calls (run_forever received now a) = enqueued a"
proof (induction received now a rule: run_forever.induct)
  case (1 received now a)
  show ?case
  proof (cases "mailbox a = []")
    case True
    show ?thesis
    proof (cases "result (a_event a)")
      case NOT_USED
      with True "1.prems" show ?thesis
        by (subst (1 2 3) run_forever.simps)
          (simp add: wait_def at_loop_head_def)
    next
      case (Value v)
      with "1.prems" have ex: "exc (a_event a) = Bound None"
        by (simp add: at_loop_head_def exc_ok_def)
      let ?ev' = "(a_event a)\<lparr>epoch := now, result := NOT_USED, waiters := []\<rparr>"
      have w: "wait (a_fiber a) (a_event a) = (Done (Inr v), a_event a)"
        by (simp add: wait_def Value ex)
      have r: "reset now (a_event a) = (Inr (), ?ev')"
        by (simp add: reset_def Value)
      have head: "at_loop_head (a\<lparr>a_event := ?ev'\<rparr>)"
        using "1.prems" by (simp add: at_loop_head_def exc_ok_def)
      from "1.IH"(1) [OF True w [symmetric] refl refl r [symmetric] refl "1.prems"(1) head]
      show ?thesis
        by (subst (1 2 3) run_forever.simps) (simp add: True w r)
    qed
  next
    case False
    from "1.prems" have rn: "received (hd (mailbox a)) = Return_now" by simp
    have head: "at_loop_head (a\<lparr>calls := calls a @ [hd (mailbox a)], mailbox := tl (mailbox a)\<rparr>)"
      using "1.prems" False by (simp add: at_loop_head_def)
    from "1.IH"(2) [OF False rn "1.prems"(1) head]
    show ?thesis
      by (subst (1 2 3) run_forever.simps) (simp add: False rn)
  qed
qed

text \<open>
  When \<open>received\<close> always returns without suspending, the owner is never found inside
  a call of \<open>received\<close> and never dead, and every switch to it empties the mailbox.
\<close>

lemma switch_in_drains:
  assumes s: "settled a" and r: "\<forall>m. received m = Return_now"
    and at: "a_at a = Not_started \<or> a_at a = In_wait"
  shows "a_at (step received now a Switch_in) = In_wait
     \<and> mailbox (step received now a Switch_in) = []
     \<and> calls (step received now a Switch_in) = enqueued a"
  using step_shape [OF s, of Switch_in received now]
proof (elim disjE exE conjE)
  assume idle: "step received now a Switch_in = a"
    and fresh: "Switch_in = Switch_in \<and> a_at a = In_wait \<longrightarrow> result (a_event a) = NOT_USED"
    and started: "Switch_in = Switch_in \<longrightarrow> a_at a \<noteq> Not_started"
  from at started have iw: "a_at a = In_wait" by simp
  with fresh s have "mailbox a = []" "calls a = enqueued a"
    by (auto simp: settled_def)
  with idle iw show ?thesis by simp
next
  fix a1
  assume "step received now a Switch_in = run_forever received now a1"
    and "at_loop_head a1" and "enqueued a1 = enqueued a"
  with run_forever_drains [OF r, of a1 now] show ?thesis by simp
next
  assume "a_at a = In_received"
  with at show ?thesis by simp
qed simp

lemma step_calm:
  assumes s: "settled a" and r: "\<forall>m. received m = Return_now"
    and at: "a_at a = Not_started \<or> a_at a = In_wait"
  shows "a_at (step received now a act) = Not_started \<or> a_at (step received now a act) = In_wait"
proof (cases act)
  case (Cast f m)
  with at show ?thesis by (simp add: step_def cast_a_at)
next
  case (Finish x)
  with at show ?thesis by (auto simp: step_def)
next
  case Switch_in
  with switch_in_drains [OF s r at, of now] show ?thesis by simp
qed

lemma run_actions_calm:
  "settled a \<Longrightarrow> \<forall>m. received m = Return_now \<Longrightarrow> a_at a = Not_started \<or> a_at a = In_wait \<Longrightarrow>
     a_at (run_actions received now acts a) = Not_started
     \<or> a_at (run_actions received now acts a) = In_wait"
proof (induction acts arbitrary: a)
  case Nil
  then show ?case by (simp add: run_actions_def)
next
  case (Cons act acts)
  from step_settled [OF Cons.prems(1), of received now act]
  have s: "settled (step received now a act)" by simp
  from Cons.IH [OF s Cons.prems(2) step_calm [OF Cons.prems]]
  show ?case by (simp add: run_actions_def)
qed

lemma run_forever_progress:
  "\<forall>m e. received m \<noteq> Raise_now e \<Longrightarrow> at_loop_head a \<Longrightarrow>
     quiet (run_forever received now a)
     \<or> (a_at (run_forever received now a) = In_received
        \<and> length (mailbox (run_forever received now a)) \<le> length (mailbox a))"
proof (induction received now a rule: run_forever.induct)
  case (1 received now a)
  show ?case
  proof (cases "mailbox a = []")
    case True
    show ?thesis
    proof (cases "result (a_event a)")
      case NOT_USED
      with True "1.prems" show ?thesis
        by (subst (1 2 3) run_forever.simps)
          (simp add: wait_def at_loop_head_def quiet_def)
    next
      case (Value v)
      with "1.prems" have ex: "exc (a_event a) = Bound None"
        by (simp add: at_loop_head_def exc_ok_def)
      let ?ev' = "(a_event a)\<lparr>epoch := now, result := NOT_USED, waiters := []\<rparr>"
      have w: "wait (a_fiber a) (a_event a) = (Done (Inr v), a_event a)"
        by (simp add: wait_def Value ex)
      have r: "reset now (a_event a) = (Inr (), ?ev')"
        by (simp add: reset_def Value)
      have head: "at_loop_head (a\<lparr>a_event := ?ev'\<rparr>)"
        using "1.prems" by (simp add: at_loop_head_def exc_ok_def)
      from "1.IH"(1) [OF True w [symmetric] refl refl r [symmetric] refl "1.prems"(1) head]
      show ?thesis
        by (subst (1 2 3) run_forever.simps) (simp add: True w r)
    qed
  next
    case False
    show ?thesis
    proof (cases "received (hd (mailbox a))")
      case Return_now
      have head: "at_loop_head (a\<lparr>calls := calls a @ [hd (mailbox a)], mailbox := tl (mailbox a)\<rparr>)"
        using "1.prems" False by (simp add: at_loop_head_def)
      from "1.IH"(2) [OF False Return_now "1.prems"(1) head]
      show ?thesis
        by (subst (1 2 3) run_forever.simps) (auto simp: False Return_now)
    next
      case (Raise_now e)
      with "1.prems"(1) show ?thesis by simp
    next
      case Suspend
      with False show ?thesis
        by (subst (1 2) run_forever.simps) simp
    qed
  qed
qed


lemma wake_up_mailbox:
  assumes s: "settled a" and iw: "a_at a = In_wait" and trig: "result (a_event a) \<noteq> NOT_USED"
  shows "\<exists>a1. step received now a Switch_in = run_forever received now a1 \<and> at_loop_head a1
           \<and> mailbox a1 = mailbox a \<and> calls a1 = calls a"
proof -
  from s iw trig
  have wk: "wake_calls (a_fiber a) (a_hub a) = [GreenlibSwitch (a_fiber a) PyNone None]"
    and inv: "calls a @ mailbox a = enqueued a" "depth a = 0" "exc_ok (a_event a)"
    by (simp_all add: settled_def)
  let ?ev' = "(a_event a)\<lparr>epoch := now, result := NOT_USED, waiters := []\<rparr>"
  let ?a1 = "a\<lparr>a_hub := (a_hub a)\<lparr>timers := fire_first (a_fiber a) (timers (a_hub a))\<rparr>,
               a_event := ?ev'\<rparr>"
  have r: "reset now (a_event a) = (Inr (), ?ev')"
    using trig by (simp add: reset_def)
  have "at_loop_head ?a1"
    using inv wk by (simp add: at_loop_head_def exc_ok_def wake_calls_fire_first)
  moreover have "step received now a Switch_in = run_forever received now ?a1"
    using iw wk r by (simp add: step_def after_wait_def resume_of_def greenlib_switch_def)
  moreover have "mailbox ?a1 = mailbox a" and "calls ?a1 = calls a" by simp_all
  ultimately show ?thesis by blast
qed

lemma received_returns_mailbox:
  assumes s: "settled a" and ir: "a_at a = In_received"
  shows "\<exists>a1. step received now a (Finish None) = run_forever received now a1 \<and> at_loop_head a1
           \<and> length (mailbox a1) < length (mailbox a)"
proof -
  from s ir have ic: "in_call a" and d: "depth a = 1" and ex: "exc_ok (a_event a)"
    by (simp_all add: settled_def)
  from ic obtain m ms where mb: "mailbox a = m # ms"
    by (cases "mailbox a") (simp_all add: in_call_def)
  let ?a1 = "a\<lparr>depth := depth a - 1, mailbox := ms\<rparr>"
  from in_call_unreceived [OF ic] mb have "calls a @ ms = enqueued a" by simp
  with ic d ex have "at_loop_head ?a1"
    by (simp add: at_loop_head_def in_call_def)
  moreover have "step received now a (Finish None) = run_forever received now ?a1"
    using ir mb by (simp add: step_def after_received_def)
  moreover have "length (mailbox ?a1) < length (mailbox a)" using mb by simp
  ultimately show ?thesis by blast
qed

lemma switch_in_progress:
  assumes s: "settled a" and nr: "\<forall>m e. received m \<noteq> Raise_now e" and alive: "\<forall>e. a_at a \<noteq> Dead e"
  shows "quiet (step received now a Switch_in)
     \<or> (a_at (step received now a Switch_in) = In_received
        \<and> length (mailbox (step received now a Switch_in)) \<le> length (mailbox a))"
proof (cases "a_at a")
  case Not_started
  with s have "at_loop_head a" by (simp add: settled_def)
  from run_forever_progress [OF nr this, of now] Not_started show ?thesis
    by (simp add: step_def)
next
  case In_wait
  show ?thesis
  proof (cases "result (a_event a) = NOT_USED")
    case True
    with s In_wait have "wake_calls (a_fiber a) (a_hub a) = []" "mailbox a = []"
      by (simp_all add: settled_def)
    with In_wait True show ?thesis by (simp add: step_def quiet_def)
  next
    case False
    from wake_up_mailbox [OF s In_wait False, of received now]
    obtain a1 where "step received now a Switch_in = run_forever received now a1"
      and "at_loop_head a1" and "mailbox a1 = mailbox a" by blast
    with run_forever_progress [OF nr, of a1 now] show ?thesis by simp
  qed
next
  case In_received
  then show ?thesis by (simp add: step_def)
next
  case (Dead e)
  with alive show ?thesis by simp
qed

lemma finish_progress:
  assumes s: "settled a" and nr: "\<forall>m e. received m \<noteq> Raise_now e"
    and at: "quiet a \<or> a_at a = In_received"
  shows "quiet (step received now a (Finish None))
     \<or> (a_at (step received now a (Finish None)) = In_received
        \<and> length (mailbox (step received now a (Finish None))) < length (mailbox a))"
  using at
proof
  assume "quiet a"
  then show ?thesis by (simp add: step_def quiet_def)
next
  assume ir: "a_at a = In_received"
  from received_returns_mailbox [OF s ir, of received now]
  obtain a1 where "step received now a (Finish None) = run_forever received now a1"
    and "at_loop_head a1" and "length (mailbox a1) < length (mailbox a)" by blast
  with run_forever_progress [OF nr, of a1 now] show ?thesis by auto
qed

lemma run_actions_append:
  "run_actions received now (xs @ ys) a = run_actions received now ys (run_actions received now xs a)"
  by (simp add: run_actions_def)

lemma run_actions_settle_Suc:
  "run_actions received now (settle (Suc n)) a =
     run_actions received now (settle n)
       (step received now (step received now a Switch_in) (Finish None))"
  by (simp add: settle_def run_actions_def)

lemma cast_messages_settle: "cast_messages (settle n) = []"
  by (induction n) (simp_all add: settle_def cast_messages_def)

lemma quiet_stays:
  "settled a \<Longrightarrow> quiet a \<Longrightarrow> run_actions received now (settle n) a = a"
proof (induction n)
  case 0
  then show ?case by (simp add: settle_def run_actions_def)
next
  case (Suc n)
  from Suc.prems have "wake_calls (a_fiber a) (a_hub a) = []" and "a_at a = In_wait"
    by (simp_all add: settled_def quiet_def)
  then have "step received now (step received now a Switch_in) (Finish None) = a"
    by (simp add: step_def)
  with Suc show ?case
    by (simp add: run_actions_settle_Suc)
qed

lemma settle_quiet:
  assumes nr: "\<forall>m e. received m \<noteq> Raise_now e"
  shows "settled a \<Longrightarrow> \<forall>e. a_at a \<noteq> Dead e \<Longrightarrow> length (mailbox a) < n \<Longrightarrow>
     quiet (run_actions received now (settle n) a)"
proof (induction n arbitrary: a)
  case 0
  then show ?case by simp
next
  case (Suc n)
  let ?b = "step received now a Switch_in"
  let ?c = "step received now ?b (Finish None)"
  have sb: "settled ?b" using step_settled [OF Suc.prems(1)] by simp
  have sc: "settled ?c" using step_settled [OF sb] by simp
  have pb: "quiet ?b \<or> (a_at ?b = In_received \<and> length (mailbox ?b) \<le> length (mailbox a))"
    using switch_in_progress [OF Suc.prems(1) nr Suc.prems(2)] .
  then have atb: "quiet ?b \<or> a_at ?b = In_received" by blast
  from finish_progress [OF sb nr atb, of now] pb
  have pc: "quiet ?c \<or> (a_at ?c = In_received \<and> length (mailbox ?c) < length (mailbox a))"
    by (auto simp: quiet_def)
  have run: "run_actions received now (settle (Suc n)) a = run_actions received now (settle n) ?c"
    by (rule run_actions_settle_Suc)
  from pc show ?case
  proof
    assume "quiet ?c"
    with quiet_stays [OF sc, of received now n] run show ?thesis by simp
  next
    assume c: "a_at ?c = In_received \<and> length (mailbox ?c) < length (mailbox a)"
    with Suc.prems(3) have "length (mailbox ?c) < n" by simp
    moreover from c have "\<forall>e. a_at ?c \<noteq> Dead e" by simp
    ultimately show ?thesis using Suc.IH [OF sc] run by simp
  qed
qed

lemma cast_calls: "calls (snd (cast f m a)) = calls a"
  by (simp add: cast_def Let_def split: prod.splits)

lemma dead_stays:
  "a_at a = Dead e \<Longrightarrow>
     a_at (run_actions received now acts a) = Dead e
     \<and> calls (run_actions received now acts a) = calls a"
proof (induction acts arbitrary: a)
  case Nil
  then show ?case by (simp add: run_actions_def)
next
  case (Cons act acts)
  have "a_at (step received now a act) = Dead e \<and> calls (step received now a act) = calls a"
    using Cons.prems by (cases act) (simp_all add: step_def cast_a_at cast_calls)
  with Cons.IH [of "step received now a act"] show ?case
    by (simp add: run_actions_def)
qed

lemma raising_call_kills:
  assumes s: "settled a" and at: "a_at a = Not_started \<or> a_at a = In_wait"
    and mb: "mailbox a \<noteq> []" and r: "received (hd (mailbox a)) = Raise_now e"
  shows "a_at (step received now a Switch_in) = Dead e
     \<and> calls (step received now a Switch_in) = calls a @ [hd (mailbox a)]"
  using at
proof
  assume "a_at a = Not_started"
  with mb r show ?thesis
    by (simp add: step_def) (subst (1 2) run_forever.simps, simp)
next
  assume iw: "a_at a = In_wait"
  with s mb have "result (a_event a) \<noteq> NOT_USED"
    by (auto simp: settled_def)
  from wake_up_mailbox [OF s iw this, of received now]
  obtain a1 where "step received now a Switch_in = run_forever received now a1"
    and "mailbox a1 = mailbox a" and "calls a1 = calls a" by blast
  with mb r show ?thesis
    by (simp, subst (1 2) run_forever.simps, simp)
qed

lemma step_alive:
  assumes s: "settled a" and nr: "\<forall>m e. received m \<noteq> Raise_now e"
    and alive: "\<forall>e. a_at a \<noteq> Dead e" and act: "\<forall>e. act \<noteq> Finish (Some e)"
  shows "\<forall>e. a_at (step received now a act) \<noteq> Dead e"
proof (cases act)
  case (Cast f m)
  with alive show ?thesis by (simp add: step_def cast_a_at)
next
  case Switch_in
  with switch_in_progress [OF s nr alive, of now] show ?thesis
    by (auto simp: quiet_def)
next
  case (Finish x)
  with act have x: "x = None" by (cases x) simp_all
  show ?thesis
  proof (cases "a_at a = In_received")
    case True
    with finish_progress [OF s nr, of now] Finish x show ?thesis
      by (auto simp: quiet_def)
  next
    case False
    with Finish alive show ?thesis
      by (cases "a_at a") (simp_all add: step_def)
  qed
qed

lemma run_actions_alive:
  assumes nr: "\<forall>m e. received m \<noteq> Raise_now e"
  shows "settled a \<Longrightarrow> \<forall>e. a_at a \<noteq> Dead e \<Longrightarrow> \<forall>e. Finish (Some e) \<notin> set acts \<Longrightarrow>
     \<forall>e. a_at (run_actions received now acts a) \<noteq> Dead e"
proof (induction acts arbitrary: a)
  case Nil
  then show ?case by (simp add: run_actions_def)
next
  case (Cons act acts)
  from Cons.prems(3) have act: "\<forall>e. act \<noteq> Finish (Some e)"
    and rest: "\<forall>e. Finish (Some e) \<notin> set acts" by auto
  have sb: "settled (step received now a act)"
    using step_settled [OF Cons.prems(1)] by simp
  from Cons.IH [OF sb step_alive [OF Cons.prems(1) nr Cons.prems(2) act] rest]
  show ?case by (simp add: run_actions_def)
qed

text \<open>
  C6, as the code has it. Take a new Actor and any run: calls of \<open>cast\<close> by any fibers,
  the hub switching to the actor's fiber, suspended calls of \<open>received\<close> finishing, in
  any order. Then the arguments of the calls of \<open>received\<close>, followed by the messages no
  call has been made for yet, are the messages cast, in the order they were cast: each
  message is passed to \<open>received\<close> at most once, none is skipped and none overtaken. At
  most one call of \<open>received\<close> is in progress. When the owner waits on the fresh event,
  every message cast has been received. No \<open>cast\<close> raises, and \<open>cast\<close> calls \<open>send\<close>
  exactly when the mailbox was empty before it appended, leaving the event and the hub
  untouched otherwise. If \<open>received\<close> always returns without suspending, one switch to
  the owner's fiber lets it receive everything cast so far. As long as no call of
  \<open>received\<close> raises, letting the owner run once more than there are messages in the
  mailbox leaves it waiting on the fresh event with every message cast received exactly
  once. A call of \<open>received\<close> that raises ends the owner's fiber: the message it was
  called with is the last one received, whatever happens afterwards.
\<close>

theorem actor_receives_in_order:
  assumes "wake_calls g h = []"
    and "a = run_actions received now acts (Actor_init now g h)"
  shows "calls a @ unreceived a = cast_messages acts
     \<and> depth a \<le> 1
     \<and> (a_at a = In_wait \<and> result (a_event a) = NOT_USED \<longrightarrow> calls a = cast_messages acts)
     \<and> fst (cast f m a) = Inr ()
     \<and> (mailbox a \<noteq> [] \<longrightarrow>
          a_event (snd (cast f m a)) = a_event a \<and> a_hub (snd (cast f m a)) = a_hub a)
     \<and> (mailbox a = [] \<longrightarrow>
          (fst (cast f m a), a_hub (snd (cast f m a)), a_event (snd (cast f m a)))
            = send f PyNone None (a_hub a, a_event a))
     \<and> ((\<forall>m. received m = Return_now) \<longrightarrow>
          a_at (step received now a Switch_in) = In_wait
          \<and> mailbox (step received now a Switch_in) = []
          \<and> calls (step received now a Switch_in) = cast_messages acts)
     \<and> ((\<forall>m e. received m \<noteq> Raise_now e) \<and> (\<forall>e. Finish (Some e) \<notin> set acts)
          \<and> length (mailbox a) < n \<longrightarrow>
          quiet (run_actions received now (settle n) a)
          \<and> calls (run_actions received now (settle n) a) = cast_messages acts)
     \<and> ((a_at a = Not_started \<or> a_at a = In_wait) \<and> mailbox a \<noteq> []
          \<and> received (hd (mailbox a)) = Raise_now e \<longrightarrow>
          a_at (step received now a Switch_in) = Dead e
          \<and> calls (step received now a Switch_in) = calls a @ [hd (mailbox a)])
     \<and> (a_at a = In_received \<longrightarrow> a_at (step received now a (Finish (Some e))) = Dead e)
     \<and> (a_at a = Dead e \<longrightarrow>
          a_at (run_actions received now later a) = Dead e
          \<and> calls (run_actions received now later a) = calls a)"
proof -
  have init: "settled (Actor_init now g h)"
    using assms(1) by (rule Actor_init_settled)
  have s: "settled a"
    using run_actions_settled [OF init] assms(2) by simp
  have enq: "enqueued a = cast_messages acts"
    using run_actions_settled [OF init, of received now acts] assms(2)
    by (simp add: Actor_init_def)
  have 1: "calls a @ unreceived a = cast_messages acts" and 2: "depth a \<le> 1"
    using settled_unreceived [OF s] enq by simp_all
  have 3: "a_at a = In_wait \<and> result (a_event a) = NOT_USED \<longrightarrow> calls a = cast_messages acts"
    using s enq by (auto simp: settled_def)
  have 4: "fst (cast f m a) = Inr ()"
    using cast_settled [OF s] by simp
  have 5: "mailbox a \<noteq> [] \<longrightarrow>
          a_event (snd (cast f m a)) = a_event a \<and> a_hub (snd (cast f m a)) = a_hub a"
    by (simp add: cast_nonempty)
  have 6: "mailbox a = [] \<longrightarrow>
          (fst (cast f m a), a_hub (snd (cast f m a)), a_event (snd (cast f m a)))
            = send f PyNone None (a_hub a, a_event a)"
    by (simp add: cast_empty split: prod.splits)
  have 7: "(\<forall>m. received m = Return_now) \<longrightarrow>
          a_at (step received now a Switch_in) = In_wait
          \<and> mailbox (step received now a Switch_in) = []
          \<and> calls (step received now a Switch_in) = cast_messages acts"
  proof
    assume r: "\<forall>m. received m = Return_now"
    have "a_at (Actor_init now g h) = Not_started \<or> a_at (Actor_init now g h) = In_wait"
      by (simp add: Actor_init_def)
    from run_actions_calm [OF init r this, of now acts] assms(2)
    have "a_at a = Not_started \<or> a_at a = In_wait" by simp
    from switch_in_drains [OF s r this, of now] enq
    show "a_at (step received now a Switch_in) = In_wait
          \<and> mailbox (step received now a Switch_in) = []
          \<and> calls (step received now a Switch_in) = cast_messages acts"
      by simp
  qed
  have 8: "(\<forall>m e. received m \<noteq> Raise_now e) \<and> (\<forall>e. Finish (Some e) \<notin> set acts)
          \<and> length (mailbox a) < n \<longrightarrow>
          quiet (run_actions received now (settle n) a)
          \<and> calls (run_actions received now (settle n) a) = cast_messages acts"
  proof (intro impI, elim conjE)
    assume nr: "\<forall>m e. received m \<noteq> Raise_now e" and nf: "\<forall>e. Finish (Some e) \<notin> set acts"
      and len: "length (mailbox a) < n"
    have "\<forall>e. a_at (Actor_init now g h) \<noteq> Dead e" by (simp add: Actor_init_def)
    from run_actions_alive [OF nr init this nf, of now] assms(2)
    have alive: "\<forall>e. a_at a \<noteq> Dead e" by simp
    let ?b = "run_actions received now (settle n) a"
    have q: "quiet ?b" using settle_quiet [OF nr s alive len] .
    have sb: "settled ?b" and eb: "enqueued ?b = enqueued a"
      using run_actions_settled [OF s, of received now "settle n"]
      by (simp_all add: cast_messages_settle)
    from q sb have "calls ?b = enqueued ?b"
      by (auto simp: quiet_def settled_def)
    with q eb enq show "quiet ?b \<and> calls ?b = cast_messages acts" by simp
  qed
  have 9: "(a_at a = Not_started \<or> a_at a = In_wait) \<and> mailbox a \<noteq> []
          \<and> received (hd (mailbox a)) = Raise_now e \<longrightarrow>
          a_at (step received now a Switch_in) = Dead e
          \<and> calls (step received now a Switch_in) = calls a @ [hd (mailbox a)]"
    using raising_call_kills [OF s, of received e now] by blast
  have 10: "a_at a = In_received \<longrightarrow> a_at (step received now a (Finish (Some e))) = Dead e"
    by (simp add: step_def after_received_def)
  have 11: "a_at a = Dead e \<longrightarrow>
          a_at (run_actions received now later a) = Dead e
          \<and> calls (run_actions received now later a) = calls a"
    using dead_stays [of a e received now later] by blast
  from 1 2 3 4 5 6 7 8 9 10 11 show ?thesis by blast
qed

theorem actor_receives_in_order_witness:
  "wake_calls 1 \<lparr>greenlet = 0, timers = [], listeners = []\<rparr> = []
   \<and> calls (run_actions (\<lambda>m. Return_now) 0
        [Switch_in, Cast 2 (PyStr ''message 1''), Switch_in,
         Cast 2 (PyStr ''message 2''), Cast 3 (PyStr ''message 3''), Switch_in]
        (Actor_init 0 1 \<lparr>greenlet = 0, timers = [], listeners = []\<rparr>))
      = [PyStr ''message 1'', PyStr ''message 2'', PyStr ''message 3'']
   \<and> a_at (run_actions (\<lambda>m. Return_now) 0
        [Switch_in, Cast 2 (PyStr ''message 1''), Switch_in,
         Cast 2 (PyStr ''message 2''), Cast 3 (PyStr ''message 3''), Switch_in]
        (Actor_init 0 1 \<lparr>greenlet = 0, timers = [], listeners = []\<rparr>)) = In_wait
   \<and> calls (run_actions (\<lambda>m. Suspend) 0
        [Cast 2 (PyStr ''message 1''), Switch_in, Cast 3 (PyStr ''message 2''), Finish None]
        (Actor_init 0 1 \<lparr>greenlet = 0, timers = [], listeners = []\<rparr>))
      = [PyStr ''message 1'', PyStr ''message 2'']
   \<and> depth (run_actions (\<lambda>m. Suspend) 0
        [Cast 2 (PyStr ''message 1''), Switch_in, Cast 3 (PyStr ''message 2''), Finish None]
        (Actor_init 0 1 \<lparr>greenlet = 0, timers = [], listeners = []\<rparr>)) = 1
   \<and> length (mailbox (run_actions (\<lambda>m. Suspend) 0
        [Cast 2 (PyStr ''message 1''), Switch_in, Cast 3 (PyStr ''message 2''), Finish None]
        (Actor_init 0 1 \<lparr>greenlet = 0, timers = [], listeners = []\<rparr>))) < 2
   \<and> quiet (run_actions (\<lambda>m. Suspend) 0 (settle 2)
        (run_actions (\<lambda>m. Suspend) 0
          [Cast 2 (PyStr ''message 1''), Switch_in, Cast 3 (PyStr ''message 2''), Finish None]
          (Actor_init 0 1 \<lparr>greenlet = 0, timers = [], listeners = []\<rparr>)))
   \<and> calls (run_actions (\<lambda>m. Suspend) 0 (settle 2)
        (run_actions (\<lambda>m. Suspend) 0
          [Cast 2 (PyStr ''message 1''), Switch_in, Cast 3 (PyStr ''message 2''), Finish None]
          (Actor_init 0 1 \<lparr>greenlet = 0, timers = [], listeners = []\<rparr>)))
      = [PyStr ''message 1'', PyStr ''message 2'']
   \<and> a_at (run_actions (\<lambda>m. Raise_now (Exn RuntimeError ''boom'')) 0
        [Cast 2 (PyStr ''message 1''), Switch_in, Cast 3 (PyStr ''message 2''), Switch_in]
        (Actor_init 0 1 \<lparr>greenlet = 0, timers = [], listeners = []\<rparr>))
      = Dead (Exn RuntimeError ''boom'')
   \<and> calls (run_actions (\<lambda>m. Raise_now (Exn RuntimeError ''boom'')) 0
        [Cast 2 (PyStr ''message 1''), Switch_in, Cast 3 (PyStr ''message 2''), Switch_in]
        (Actor_init 0 1 \<lparr>greenlet = 0, timers = [], listeners = []\<rparr>))
      = [PyStr ''message 1'']"
proof -
  have w: "wake_calls 1 \<lparr>greenlet = 0, timers = [], listeners = []\<rparr> = []"
    by (simp add: wake_calls_def)
  note defs = run_actions_def step_def Actor_init_def event_init_def reset_def cast_def
      send_def wait_def dict_set_def schedule_call_def add_timer_def wake_calls_def resumes_def
      resume_of_def greenlib_switch_def after_wait_def after_received_def Let_def
      run_forever.simps cast_messages_def unreceived_def stored_def settle_def quiet_def
  from actor_receives_in_order [OF w refl, of "\<lambda>m. Return_now" 0
      "[Switch_in, Cast 2 (PyStr ''message 1''), Switch_in,
         Cast 2 (PyStr ''message 2''), Cast 3 (PyStr ''message 3''), Switch_in]"]
    actor_receives_in_order [OF w refl, of "\<lambda>m. Suspend" 0
      "[Cast 2 (PyStr ''message 1''), Switch_in, Cast 3 (PyStr ''message 2''), Finish None]"
      _ _ 2]
    actor_receives_in_order [OF w refl, of "\<lambda>m. Raise_now (Exn RuntimeError ''boom'')" 0
      "[Cast 2 (PyStr ''message 1'')]" _ _ _ "Exn RuntimeError ''boom''"
      "[Cast 3 (PyStr ''message 2''), Switch_in]"]
  show ?thesis
    by (simp add: defs)
qed

text \<open>
  The claim as the spec states it, for every Actor, fails for the class as it is defined:
  \<open>Actor.received\<close> raises NotImplementedError and \<open>run_forever\<close> has no handler, so the
  first message ends the owner's fiber. Three messages are cast; \<open>received\<close> is called
  for the first only, and the mailbox keeps all three.
\<close>

theorem actor_default_received_counterexample:
  "wake_calls 1 \<lparr>greenlet = 0, timers = [], listeners = []\<rparr> = []
   \<and> cast_messages
        [Cast 2 (PyStr ''message 1''), Cast 2 (PyStr ''message 2''), Switch_in, Switch_in,
         Finish None, Cast 3 (PyStr ''message 3''), Switch_in]
      = [PyStr ''message 1'', PyStr ''message 2'', PyStr ''message 3'']
   \<and> calls (run_actions default_received 0
        [Cast 2 (PyStr ''message 1''), Cast 2 (PyStr ''message 2''), Switch_in, Switch_in,
         Finish None, Cast 3 (PyStr ''message 3''), Switch_in]
        (Actor_init 0 1 \<lparr>greenlet = 0, timers = [], listeners = []\<rparr>))
      = [PyStr ''message 1'']
   \<and> a_at (run_actions default_received 0
        [Cast 2 (PyStr ''message 1''), Cast 2 (PyStr ''message 2''), Switch_in, Switch_in,
         Finish None, Cast 3 (PyStr ''message 3''), Switch_in]
        (Actor_init 0 1 \<lparr>greenlet = 0, timers = [], listeners = []\<rparr>))
      = Dead (Exn NotImplementedError '''')
   \<and> mailbox (run_actions default_received 0
        [Cast 2 (PyStr ''message 1''), Cast 2 (PyStr ''message 2''), Switch_in, Switch_in,
         Finish None, Cast 3 (PyStr ''message 3''), Switch_in]
        (Actor_init 0 1 \<lparr>greenlet = 0, timers = [], listeners = []\<rparr>))
      = [PyStr ''message 1'', PyStr ''message 2'', PyStr ''message 3'']"
  by (simp add: run_actions_def step_def Actor_init_def event_init_def reset_def cast_def
      send_def wait_def dict_set_def schedule_call_def add_timer_def wake_calls_def resumes_def
      resume_of_def greenlib_switch_def after_wait_def after_received_def Let_def
      run_forever.simps cast_messages_def stored_def default_received_def)

section \<open>CoroutinePool: a job that raises\<close>

lemma cancel_timers_none_pending:
  "t \<in> set (timers (cancel_timers g h)) \<Longrightarrow> bound t = Some g \<Longrightarrow> \<not> fired t \<Longrightarrow> cancelled t"
  by (auto simp: cancel_timers_def split: if_splits)

text \<open>
  What the worker itself does with a job whose result event is fresh (or None): when the
  call returns, raises GreenletExit or raises an Exception, the body of the loop ends
  normally, the sender is back in the free list and no timer bound to the worker's fiber
  is left pending.
\<close>

lemma run_job_returns_worker:
  assumes job: "recvd = PyTuple [evt, func, args, kw]"
    and evt: "evt = PyNone \<or> (\<exists>n. evt = PyEvent n \<and> result (p_events p n) = NOT_USED)"
    and out: "case fst (call func args kw (p_hub p)) of
                Inr v \<Rightarrow> True | Inl e \<Rightarrow> isinstance e GreenletExit \<or> isinstance e Exception"
    and run: "run_job call current sender recvd p = (r, p')"
  shows "r = Inr () \<and> sender \<in> set (free_items p')
     \<and> (\<forall>t \<in> set (timers (p_hub p')). bound t = Some current \<longrightarrow> cancelled t \<or> fired t)"
proof -
  obtain o1 h1 where c: "call func args kw (p_hub p) = (o1, h1)"
    by (cases "call func args kw (p_hub p)")
  from evt show ?thesis
  proof
    assume "evt = PyNone"
    with job out run c show ?thesis
      by (auto simp: run_job_def put_def Let_def
          split: sum.splits if_splits dest: cancel_timers_none_pending)
  next
    assume "\<exists>n. evt = PyEvent n \<and> result (p_events p n) = NOT_USED"
    then obtain n where n: "evt = PyEvent n" and fresh: "result (p_events p n) = NOT_USED"
      by auto
    with job out run c show ?thesis
      by (auto simp: run_job_def put_def Let_def evt_send_def send_fresh
          split: sum.splits if_splits dest: cancel_timers_none_pending)
  qed
qed

text \<open>
  C7 at a concrete run. Fiber 2 calls \<open>execute\<close> with a job that raises
  ZeroDivisionError, gets event 1 and calls its \<open>wait()\<close>, which suspends it. The hub
  switches to the worker with the job. The worker catches the exception, calls
  \<open>evt.send(exc=e)\<close>, goes back to the free list and waits again. The event now stores
  the exception, but the call that \<open>send\<close> scheduled for fiber 2 is
  \<open>greenlib.switch(fiber 2, None)\<close>: the requester's \<open>wait()\<close> is not thrown the
  exception, it would return None.
\<close>

theorem pool_job_exception_not_thrown_into_requester:
  "(case pool_execute 2 0 (PyFunc 0) (PyTuple []) (PyTuple []) pool_with_idle_worker of
      (r, p1) \<Rightarrow>
        r = Done (Inr 1)
        \<and> map (resume_of \<circ> cb) (timers (p_hub p1)) =
            [(1, Inr (PyTuple [PyEvent 1, PyFunc 0, PyTuple [], PyTuple []]))]
        \<and> (case wait 2 (p_events p1 1) of
             (b, receiver) \<Rightarrow>
               b = Switched
               \<and> (case main_loop 1 dividing_by_zero 0 1 0
                          (PyTuple [PyEvent 1, PyFunc 0, PyTuple [], PyTuple []])
                          (p1\<lparr>p_events := (p_events p1)(1 := receiver)\<rparr>) of
                    None \<Rightarrow> False
                  | Some (w, p3) \<Rightarrow>
                      w = Waiting_for_job
                      \<and> free_items p3 = [0]
                      \<and> result (p_events p3 1) = Value PyNone
                      \<and> exc (p_events p3 1) =
                          Bound (Some (Exn ZeroDivisionError ''integer division or modulo by zero''))
                      \<and> waiters (p_events p3 1) = [2]
                      \<and> map (resume_of \<circ> cb) (timers (p_hub p3)) =
                          [(1, Inr (PyTuple [PyEvent 1, PyFunc 0, PyTuple [], PyTuple []])),
                           (2, Inr PyNone)])))"
  by (simp add: pool_execute_def pool_get_def pool_with_idle_worker_def dividing_by_zero_def evt_send_def
      send_def wait_def reset_def event_init_def run_job_def put_def cancel_timers_def
      schedule_call_def add_timer_def resume_of_def greenlib_switch_def dict_set_def
      isinstance_def issubclass_def stored_def Let_def)

end
